theory Spec2Isabelle
  imports Main
begin

section \<open>JavaScript values\<close>

text \<open>
  Rule configuration values, rule metadata, report arguments and syntax-tree nodes are
  plain JavaScript values. Numbers are modelled by integers (the linter only compares
  them with \<open>0\<close>, \<open>1\<close> and \<open>2\<close> and with each other), strings by HOL strings, arrays by
  lists, and object literals by their own properties in insertion order. The built-in
  objects that a property read on an object literal can reach through the prototype
  chain are values of their own.
\<close>

datatype builtin = Object_constructor | Object_prototype | Object_method string

datatype jsval =
    JUndefined
  | JNull
  | JBool bool
  | JNum int
  | JStr string
  | JArr "jsval list"
  | JObj "(string \<times> jsval) list"
  | JBuiltin builtin

text \<open>Truthiness, as tested by \<open>if (x)\<close>, \<open>!x\<close> and \<open>x || y\<close>.\<close>

fun truthy :: "jsval \<Rightarrow> bool" where
  "truthy JUndefined = False"
| "truthy JNull = False"
| "truthy (JBool b) = b"
| "truthy (JNum n) = (n \<noteq> 0)"
| "truthy (JStr s) = (s \<noteq> [])"
| "truthy (JArr xs) = True"
| "truthy (JObj ps) = True"
| "truthy (JBuiltin b) = True"

definition js_or :: "jsval \<Rightarrow> jsval \<Rightarrow> jsval" where
  "js_or a b = (if truthy a then a else b)"

text \<open>
  The properties every object literal inherits from \<open>Object.prototype\<close>: a read of a
  name that is not an own property finds them.
\<close>

definition object_prototype_methods :: "string list" where
  "object_prototype_methods =
     [''hasOwnProperty'', ''isPrototypeOf'', ''propertyIsEnumerable'', ''toLocaleString'',
      ''toString'', ''valueOf'', ''__defineGetter__'', ''__defineSetter__'',
      ''__lookupGetter__'', ''__lookupSetter__'']"

definition object_prototype_get :: "string \<Rightarrow> jsval" where
  "object_prototype_get k =
     (if k = ''constructor'' then JBuiltin Object_constructor
      else if k = ''__proto__'' then JBuiltin Object_prototype
      else if k \<in> set object_prototype_methods then JBuiltin (Object_method k)
      else JUndefined)"

text \<open>\<open>obj[k]\<close> on an object literal; \<open>arr[0]\<close> on an array.\<close>

definition get_prop :: "(string \<times> jsval) list \<Rightarrow> string \<Rightarrow> jsval" where
  "get_prop ps k = (case map_of ps k of Some v \<Rightarrow> v | None \<Rightarrow> object_prototype_get k)"

definition first_element :: "jsval list \<Rightarrow> jsval" where
  "first_element xs = (case xs of [] \<Rightarrow> JUndefined | x # _ \<Rightarrow> x)"

text \<open>
  \<open>String.prototype.toLowerCase\<close> on the characters a HOL string has: the letters
  \<open>A\<close> to \<open>Z\<close> and the upper-case letters of Latin-1 move up by 32.
\<close>

definition lower_char :: "char \<Rightarrow> char" where
  "lower_char c =
     (let n = (of_char c :: nat) in
      if (65 \<le> n \<and> n \<le> 90) \<or> (192 \<le> n \<and> n \<le> 222 \<and> n \<noteq> 215)
      then char_of (n + 32) else c)"

definition toLowerCase :: "string \<Rightarrow> string" where
  "toLowerCase s = map lower_char s"

section \<open>Severity of a rule configuration\<close>

text \<open>
  \<open>getRuleSeverity\<close>: the table \<open>RULE_SEVERITY\<close> is built by a \<open>reduce\<close> that starts
  from the object literal \<open>{}\<close> and stores the index of every name.
\<close>

definition RULE_SEVERITY_STRINGS :: "string list" where
  "RULE_SEVERITY_STRINGS = [''off'', ''warn'', ''error'']"

definition RULE_SEVERITY :: "(string \<times> jsval) list" where
  "RULE_SEVERITY =
     foldl (\<lambda>m (index, v). m @ [(v, JNum (int index))]) []
       (enumerate 0 RULE_SEVERITY_STRINGS)"

definition getRuleSeverity :: "jsval \<Rightarrow> jsval" where
  "getRuleSeverity ruleConfig =
     (let severityValue = (case ruleConfig of JArr xs \<Rightarrow> first_element xs | _ \<Rightarrow> ruleConfig) in
      if severityValue = JNum 0 \<or> severityValue = JNum 1 \<or> severityValue = JNum 2
      then severityValue
      else (case severityValue of
              JStr s \<Rightarrow> js_or (get_prop RULE_SEVERITY (toLowerCase s)) (JNum 0)
            | _ \<Rightarrow> JNum 0))"

lemma RULE_SEVERITY_eq:
  "RULE_SEVERITY = [(''off'', JNum 0), (''warn'', JNum 1), (''error'', JNum 2)]"
  by (simp add: RULE_SEVERITY_def RULE_SEVERITY_STRINGS_def)


text \<open>
  \<^bold>\<open>C5.\<close> The claim: \<open>2\<close>, \<open>"error"\<close> in any letter case and an array starting
  with one of them resolve to the same severity (likewise for off and warn), and every
  other value resolves to \<open>0\<close>. The lookup table is an object literal, so a string
  that lower-cases to a name inherited from \<open>Object.prototype\<close> finds the inherited
  value, which is truthy and is returned as it is: for \<open>"constructor"\<close> the result is the
  built-in \<open>Object\<close> function and not the number \<open>0\<close> that the function's own
  documentation (\<open>@returns {(0|1|2)}\<close>, "otherwise 0") and the claim promise.
\<close>

theorem getRuleSeverity_constructor:
  "getRuleSeverity (JStr ''constructor'') = JBuiltin Object_constructor \<and>
   getRuleSeverity (JStr ''constructor'') \<noteq> JNum 0"
  by code_simp

text \<open>The encodings the claim lists do resolve as it says.\<close>

lemma getRuleSeverity_number:
  "getRuleSeverity (JNum 0) = JNum 0"
  "getRuleSeverity (JNum 1) = JNum 1"
  "getRuleSeverity (JNum 2) = JNum 2"
  by (simp_all add: getRuleSeverity_def)

lemma getRuleSeverity_string:
  "toLowerCase s = ''off'' \<Longrightarrow> getRuleSeverity (JStr s) = JNum 0"
  "toLowerCase s = ''warn'' \<Longrightarrow> getRuleSeverity (JStr s) = JNum 1"
  "toLowerCase s = ''error'' \<Longrightarrow> getRuleSeverity (JStr s) = JNum 2"
  by (simp_all add: getRuleSeverity_def RULE_SEVERITY_eq get_prop_def js_or_def)

lemma getRuleSeverity_array:
  "getRuleSeverity (JArr (JNum n # opts)) = getRuleSeverity (JNum n)"
  "getRuleSeverity (JArr (JStr s # opts)) = getRuleSeverity (JStr s)"
  by (simp_all add: getRuleSeverity_def first_element_def)

lemma getRuleSeverity_other_string:
  assumes "toLowerCase s \<notin> {''off'', ''warn'', ''error''}"
    and "object_prototype_get (toLowerCase s) = JUndefined"
  shows "getRuleSeverity (JStr s) = JNum 0"
  using assms by (simp add: getRuleSeverity_def RULE_SEVERITY_eq get_prop_def js_or_def)

lemma getRuleSeverity_not_number_or_string:
  "getRuleSeverity JUndefined = JNum 0"
  "getRuleSeverity JNull = JNum 0"
  "getRuleSeverity (JBool b) = JNum 0"
  "getRuleSeverity (JObj ps) = JNum 0"
  "getRuleSeverity (JBuiltin f) = JNum 0"
  "getRuleSeverity (JArr []) = JNum 0"
  "n \<notin> {0, 1, 2} \<Longrightarrow> getRuleSeverity (JNum n) = JNum 0"
  by (simp_all add: getRuleSeverity_def first_element_def)

section \<open>Tree walker\<close>

text \<open>
  \<open>isNode\<close>: a non-null object whose \<open>type\<close> is a string. \<open>node_get\<close> is the read
  \<open>node[key]\<close>; the walker reads properties of nodes only.
\<close>

definition isNode :: "jsval \<Rightarrow> bool" where
  "isNode x =
     (case x of
        JObj ps \<Rightarrow> (case get_prop ps ''type'' of JStr t \<Rightarrow> True | _ \<Rightarrow> False)
      | _ \<Rightarrow> False)"

definition node_type :: "jsval \<Rightarrow> string" where
  "node_type x =
     (case x of
        JObj ps \<Rightarrow> (case get_prop ps ''type'' of JStr t \<Rightarrow> t | _ \<Rightarrow> ''undefined'')
      | _ \<Rightarrow> ''undefined'')"

definition node_get :: "jsval \<Rightarrow> string \<Rightarrow> jsval" where
  "node_get x k = (case x of JObj ps \<Rightarrow> get_prop ps k | _ \<Rightarrow> JUndefined)"

definition isArray :: "jsval \<Rightarrow> bool" where
  "isArray x = (case x of JArr xs \<Rightarrow> True | _ \<Rightarrow> False)"

definition elements :: "jsval \<Rightarrow> jsval list" where
  "elements x = (case x of JArr xs \<Rightarrow> xs | _ \<Rightarrow> [])"

text \<open>
  The private fields of a \<open>Traverser\<close> that change during a walk, and the state of the
  caller that the callbacks close over (\<open>user\<close>). A callback is called with the node
  and its parent and with the walker as \<open>this\<close>: it can read the walker, change its own
  state, and call \<open>this.skip()\<close> and \<open>this.break()\<close>; the calls it made are its
  \<open>control list\<close>. Callbacks are taken to return normally and not to start another
  walk on the same walker.
\<close>

datatype control = CallSkip | CallBreak

record 'u traverser =
  current :: jsval
  parents :: "jsval list"
  skipped :: bool
  broken :: bool
  user :: 'u

type_synonym 'u callback = "jsval \<Rightarrow> jsval \<Rightarrow> 'u traverser \<Rightarrow> control list \<times> 'u"

text \<open>The fields \<open>#visitorKeys\<close>, \<open>#enter\<close>, \<open>#leave\<close> and the library's \<open>evk.getKeys\<close>.\<close>

record 'u walker =
  w_visitorKeys :: "string \<Rightarrow> string list option"
  w_getKeys :: "jsval \<Rightarrow> string list"
  w_enter :: "'u callback"
  w_leave :: "'u callback"

definition apply_controls :: "control list \<times> 'u \<Rightarrow> 'u traverser \<Rightarrow> 'u traverser" where
  "apply_controls r t =
     t\<lparr>skipped := skipped t \<or> CallSkip \<in> set (fst r),
       broken := broken t \<or> CallBreak \<in> set (fst r),
       user := snd r\<rparr>"

definition getVisitorKeys :: "'u walker \<Rightarrow> jsval \<Rightarrow> string list" where
  "getVisitorKeys W node =
     (case w_visitorKeys W (node_type node) of Some keys \<Rightarrow> keys | None \<Rightarrow> w_getKeys W node)"

definition visit_size :: "jsval \<Rightarrow> nat" where
  "visit_size x = (if isNode x then 2 * size x + 1 else 0)"

lemma size_map_of: "map_of ps k = Some v \<Longrightarrow> size v < size (JObj ps)"
  by (induction ps) (auto split: if_splits)

lemma node_get_size:
  "isNode (node_get node k) \<or> isArray (node_get node k) \<Longrightarrow> size (node_get node k) < size node"
  by (cases node)
     (auto simp: node_get_def get_prop_def isNode_def isArray_def object_prototype_get_def
           split: option.splits if_splits dest: size_map_of)

lemma visit_size_node_get: "visit_size (node_get node k) \<le> 2 * size node"
  using node_get_size [of node k] by (auto simp: visit_size_def)

lemma size_elements_node_get:
  "isArray (node_get node k) \<Longrightarrow> size (JArr (elements (node_get node k))) < size node"
  using node_get_size [of node k] by (auto simp: isArray_def elements_def split: jsval.splits)

text \<open>
  \<open>#traverse(node, parent)\<close>, with its loop over the keys (\<open>traverse_keys\<close>) and its
  loop over the elements of an array-valued child (\<open>traverse_elements\<close>).
\<close>

function traverse_rec :: "'u walker \<Rightarrow> jsval \<Rightarrow> jsval \<Rightarrow> 'u traverser \<Rightarrow> 'u traverser"
  and traverse_keys :: "'u walker \<Rightarrow> string list \<Rightarrow> jsval \<Rightarrow> 'u traverser \<Rightarrow> 'u traverser"
  and traverse_elements :: "'u walker \<Rightarrow> jsval list \<Rightarrow> jsval \<Rightarrow> 'u traverser \<Rightarrow> 'u traverser"
where
  "traverse_rec W node parent t =
     (if \<not> isNode node then t
      else
        let t1 = t\<lparr>current := node, skipped := False\<rparr>;
            t2 = apply_controls (w_enter W node parent t1) t1;
            t3 = (if \<not> skipped t2 \<and> \<not> broken t2 then
                    (let keys = getVisitorKeys W node in
                     if length keys \<ge> 1 then
                       (let t' = traverse_keys W keys node (t2\<lparr>parents := parents t2 @ [node]\<rparr>)
                        in t'\<lparr>parents := butlast (parents t')\<rparr>)
                     else t2)
                  else t2);
            t4 = (if \<not> broken t3 then apply_controls (w_leave W node parent t3) t3 else t3)
        in t4\<lparr>current := parent\<rparr>)"
| "traverse_keys W [] node t = t"
| "traverse_keys W (k # ks) node t =
     (if broken t then t
      else
        let child = node_get node k;
            t' = (if isArray child then traverse_elements W (elements child) node t
                  else traverse_rec W child node t)
        in traverse_keys W ks node t')"
| "traverse_elements W [] node t = t"
| "traverse_elements W (x # xs) node t =
     (if broken t then t
      else traverse_elements W xs node (traverse_rec W x node t))"
  by pat_completeness auto
termination
proof (relation "measures [
     (\<lambda>x. case x of Inl (W, node, parent, t) \<Rightarrow> visit_size node
        | Inr (Inl (W, ks, node, t)) \<Rightarrow> 2 * size node
        | Inr (Inr (W, xs, node, t)) \<Rightarrow> 2 * size (JArr xs)),
     (\<lambda>x. case x of Inl (W, node, parent, t) \<Rightarrow> 0
        | Inr (Inl (W, ks, node, t)) \<Rightarrow> Suc (length ks)
        | Inr (Inr (W, xs, node, t)) \<Rightarrow> 0)]", goal_cases)
  case 1
  show ?case by simp
next
  case (2 W node parent t)
  then show ?case by (simp add: visit_size_def)
next
  case (3 W k ks node t)
  then show ?case using size_elements_node_get [of node k] by simp
next
  case (4 W k ks node t)
  then show ?case using visit_size_node_get [of node k] by auto
next
  case (5 W k ks node t)
  then show ?case by simp
next
  case (6 W x xs node t)
  then show ?case by (simp add: visit_size_def)
next
  case (7 W x xs node t)
  then show ?case by simp
qed

declare traverse_rec.simps [simp del]

text \<open>
  \<open>traverse(node, options)\<close> resets the walker, takes the key map and the callbacks
  from the options (\<open>evk.KEYS\<close> and \<open>noop\<close> where one is missing) and walks from the
  root with parent \<open>null\<close>. The static \<open>Traverser.traverse\<close> does so on a new walker.
\<close>

record evk =
  KEYS :: "string \<Rightarrow> string list option"
  getKeys :: "jsval \<Rightarrow> string list"

record 'u traverse_options =
  o_visitorKeys :: "(string \<Rightarrow> string list option) option"
  o_enter :: "'u callback option"
  o_leave :: "'u callback option"

definition noop :: "'u callback" where
  "noop node parent t = ([], user t)"

definition traverse :: "evk \<Rightarrow> jsval \<Rightarrow> 'u traverse_options \<Rightarrow> 'u traverser \<Rightarrow> 'u traverser" where
  "traverse K node options t =
     traverse_rec
       \<lparr>w_visitorKeys = (case o_visitorKeys options of Some vk \<Rightarrow> vk | None \<Rightarrow> KEYS K),
        w_getKeys = getKeys K,
        w_enter = (case o_enter options of Some f \<Rightarrow> f | None \<Rightarrow> noop),
        w_leave = (case o_leave options of Some f \<Rightarrow> f | None \<Rightarrow> noop)\<rparr>
       node JNull
       (t\<lparr>current := JNull, parents := [], skipped := False, broken := False\<rparr>)"

definition new_Traverser :: "'u \<Rightarrow> 'u traverser" where
  "new_Traverser u = \<lparr>current = JNull, parents = [], skipped = False, broken = False, user = u\<rparr>"

definition Traverser_traverse :: "evk \<Rightarrow> jsval \<Rightarrow> 'u traverse_options \<Rightarrow> 'u \<Rightarrow> 'u traverser" where
  "Traverser_traverse K node options u = traverse K node options (new_Traverser u)"

subsection \<open>The calls a walk makes\<close>

text \<open>
  To speak about the calls of a walk, each callback is wrapped so that it appends a
  record of the call (phase, node, parent, and the control calls the callback made) to
  a log kept beside the caller's state. The wrapped walk does what the plain walk
  does (\<open>unlogged_traverse\<close>).
\<close>

datatype phase = Enter | Leave

record call =
  c_phase :: phase
  c_node :: jsval
  c_parent :: jsval
  c_controls :: "control list"

definition unlogged :: "('u \<times> call list) traverser \<Rightarrow> 'u traverser" where
  "unlogged t =
     \<lparr>current = current t, parents = parents t, skipped = skipped t, broken = broken t,
      user = fst (user t)\<rparr>"

definition with_log :: "phase \<Rightarrow> 'u callback \<Rightarrow> ('u \<times> call list) callback" where
  "with_log ph cb node parent t =
     (let r = cb node parent (unlogged t)
      in (fst r, (snd r, snd (user t) @
            [\<lparr>c_phase = ph, c_node = node, c_parent = parent, c_controls = fst r\<rparr>])))"

definition logged :: "'u walker \<Rightarrow> ('u \<times> call list) walker" where
  "logged W =
     \<lparr>w_visitorKeys = w_visitorKeys W, w_getKeys = w_getKeys W,
      w_enter = with_log Enter (w_enter W), w_leave = with_log Leave (w_leave W)\<rparr>"

definition logged_options :: "'u traverse_options \<Rightarrow> ('u \<times> call list) traverse_options" where
  "logged_options options =
     \<lparr>o_visitorKeys = o_visitorKeys options,
      o_enter = Some (with_log Enter (case o_enter options of Some f \<Rightarrow> f | None \<Rightarrow> noop)),
      o_leave = Some (with_log Leave (case o_leave options of Some f \<Rightarrow> f | None \<Rightarrow> noop))\<rparr>"

definition calls :: "evk \<Rightarrow> jsval \<Rightarrow> 'u traverse_options \<Rightarrow> 'u \<Rightarrow> call list" where
  "calls K node options u = snd (user (Traverser_traverse K node (logged_options options) (u, [])))"

definition breaking :: "call \<Rightarrow> bool" where
  "breaking c = (CallBreak \<in> set (c_controls c))"

text \<open>
  The invariant of a walk: no call but the last one of the log called \<open>break()\<close>, and
  if the last one did, the walker is broken.
\<close>

definition break_last :: "('u \<times> call list) traverser \<Rightarrow> bool" where
  "break_last t =
     (list_all (\<lambda>c. \<not> breaking c) (butlast (snd (user t))) \<and>
      (broken t \<or> list_all (\<lambda>c. \<not> breaking c) (snd (user t))))"

definition logs :: "('u \<times> call list) walker \<Rightarrow> bool" where
  "logs W = ((\<exists>e. w_enter W = with_log Enter e) \<and> (\<exists>l. w_leave W = with_log Leave l))"

lemma break_last_call:
  assumes "break_last t" "\<not> broken t"
  shows "break_last (apply_controls (with_log ph cb node parent t) t)"
  using assms by (auto simp: break_last_def apply_controls_def with_log_def Let_def breaking_def)

lemma break_last_fields [simp]:
  "break_last (t\<lparr>current := c\<rparr>) = break_last t"
  "break_last (t\<lparr>parents := ps\<rparr>) = break_last t"
  "break_last (t\<lparr>skipped := s\<rparr>) = break_last t"
  by (simp_all add: break_last_def)

lemma logged_sel [simp]:
  "w_enter (logged W) = with_log Enter (w_enter W)"
  "w_leave (logged W) = with_log Leave (w_leave W)"
  by (simp_all add: logged_def)

lemma logs_logged: "logs (logged W)"
  by (auto simp: logs_def)

lemma break_last_enter:
  "logs W \<Longrightarrow> break_last t \<Longrightarrow> \<not> broken t \<Longrightarrow>
   break_last (apply_controls (w_enter W node parent t) t)"
  by (auto simp: logs_def break_last_call)

lemma break_last_leave:
  "logs W \<Longrightarrow> break_last t \<Longrightarrow> \<not> broken t \<Longrightarrow>
   break_last (apply_controls (w_leave W node parent t) t)"
  by (auto simp: logs_def break_last_call)

lemma break_last_traverse:
  "break_last t \<Longrightarrow> \<not> broken t \<Longrightarrow> logs W \<Longrightarrow> break_last (traverse_rec W node parent t)"
  "break_last t \<Longrightarrow> logs W \<Longrightarrow> break_last (traverse_keys W ks node t)"
  "break_last t \<Longrightarrow> logs W \<Longrightarrow> break_last (traverse_elements W xs node t)"
proof (induction W node parent t and W ks node t and W xs node t
       rule: traverse_rec_traverse_keys_traverse_elements.induct)
  case (1 W node parent t)
  show ?case
  proof (cases "isNode node")
    case False
    then show ?thesis using "1.prems" by (simp add: traverse_rec.simps [of W node parent t])
  next
    case True
    define t1 where "t1 = t\<lparr>current := node, skipped := False\<rparr>"
    define t2 where "t2 = apply_controls (w_enter W node parent t1) t1"
    define keys where "keys = getVisitorKeys W node"
    define t3 where "t3 = (if \<not> skipped t2 \<and> \<not> broken t2 then
                    (if length keys \<ge> 1 then
                       (let t' = traverse_keys W keys node (t2\<lparr>parents := parents t2 @ [node]\<rparr>)
                        in t'\<lparr>parents := butlast (parents t')\<rparr>)
                     else t2)
                  else t2)"
    define t4 where "t4 = (if \<not> broken t3 then apply_controls (w_leave W node parent t3) t3 else t3)"
    have res: "traverse_rec W node parent t = t4\<lparr>current := parent\<rparr>"
      using True by (simp add: traverse_rec.simps [of W node parent t] t1_def t2_def t3_def t4_def keys_def Let_def)
    have i1: "break_last t1" "\<not> broken t1" using "1.prems" by (simp_all add: t1_def)
    have i2: "break_last t2" unfolding t2_def using i1 "1.prems"(3) by (simp add: break_last_enter)
    have i3: "break_last t3"
    proof (cases "\<not> skipped t2 \<and> \<not> broken t2 \<and> length keys \<ge> 1")
      case False
      then show ?thesis using i2 by (auto simp: t3_def)
    next
      case c: True
      have nn: "\<not> \<not> isNode node" using True by simp
      have "break_last (traverse_keys W keys node (t2\<lparr>parents := parents t2 @ [node]\<rparr>))"
        using "1.IH" [OF nn t1_def t2_def _ keys_def] c i2 "1.prems"(3) by simp
      then show ?thesis using c by (simp add: t3_def Let_def)
    qed
    have i4: "break_last t4"
      unfolding t4_def using i3 "1.prems"(3) by (simp add: break_last_leave)
    show ?thesis using i4 by (simp add: res)
  qed
next
  case (2 W node t)
  then show ?case by simp
next
  case (3 W k ks node t)
  then show ?case by (auto simp: Let_def)
next
  case (4 W node t)
  then show ?case by simp
next
  case (5 W x xs node t)
  then show ?case by auto
qed


lemma unlogged_sel [simp]:
  "current (unlogged t) = current t"
  "parents (unlogged t) = parents t"
  "skipped (unlogged t) = skipped t"
  "broken (unlogged t) = broken t"
  "user (unlogged t) = fst (user t)"
  by (simp_all add: unlogged_def)

lemma unlogged_upd [simp]:
  "unlogged (t\<lparr>current := c\<rparr>) = (unlogged t)\<lparr>current := c\<rparr>"
  "unlogged (t\<lparr>parents := ps\<rparr>) = (unlogged t)\<lparr>parents := ps\<rparr>"
  "unlogged (t\<lparr>skipped := s\<rparr>) = (unlogged t)\<lparr>skipped := s\<rparr>"
  by (simp_all add: unlogged_def)

lemma unlogged_apply:
  "unlogged (apply_controls (with_log ph cb node parent t) t) =
   apply_controls (cb node parent (unlogged t)) (unlogged t)"
  by (simp add: unlogged_def apply_controls_def with_log_def Let_def)

lemma unlogged_traverse:
  "unlogged (traverse_rec (logged W) node parent t) = traverse_rec W node parent (unlogged t)"
  "unlogged (traverse_keys (logged W) ks node t) = traverse_keys W ks node (unlogged t)"
  "unlogged (traverse_elements (logged W) xs node t) = traverse_elements W xs node (unlogged t)"
proof (induction W node parent "unlogged t" and W ks node "unlogged t" and W xs node "unlogged t"
       arbitrary: t and t and t
       rule: traverse_rec_traverse_keys_traverse_elements.induct)
  case (1 W node parent)
  show ?case
  proof (cases "isNode node")
    case False
    then show ?thesis
      by (simp add: traverse_rec.simps [of W node parent] traverse_rec.simps [of "logged W" node parent])
  next
    case True
    define t1 where "t1 = t\<lparr>current := node, skipped := False\<rparr>"
    define t2 where "t2 = apply_controls (w_enter (logged W) node parent t1) t1"
    define keys where "keys = getVisitorKeys W node"
    have keys': "getVisitorKeys (logged W) node = keys"
      by (simp add: keys_def getVisitorKeys_def logged_def split: option.splits)
    define t3 where "t3 = (if \<not> skipped t2 \<and> \<not> broken t2 then
                    (if length keys \<ge> 1 then
                       (let t' = traverse_keys (logged W) keys node (t2\<lparr>parents := parents t2 @ [node]\<rparr>)
                        in t'\<lparr>parents := butlast (parents t')\<rparr>)
                     else t2)
                  else t2)"
    define t4 where "t4 = (if \<not> broken t3 then apply_controls (w_leave (logged W) node parent t3) t3 else t3)"
    define s1 where "s1 = (unlogged t)\<lparr>current := node, skipped := False\<rparr>"
    define s2 where "s2 = apply_controls (w_enter W node parent s1) s1"
    define s3 where "s3 = (if \<not> skipped s2 \<and> \<not> broken s2 then
                    (if length keys \<ge> 1 then
                       (let t' = traverse_keys W keys node (s2\<lparr>parents := parents s2 @ [node]\<rparr>)
                        in t'\<lparr>parents := butlast (parents t')\<rparr>)
                     else s2)
                  else s2)"
    define s4 where "s4 = (if \<not> broken s3 then apply_controls (w_leave W node parent s3) s3 else s3)"
    have l: "traverse_rec (logged W) node parent t = t4\<lparr>current := parent\<rparr>"
      using True
      by (simp add: traverse_rec.simps [of "logged W" node parent t] t1_def t2_def t3_def t4_def keys' Let_def)
    have r: "traverse_rec W node parent (unlogged t) = s4\<lparr>current := parent\<rparr>"
      using True
      by (simp add: traverse_rec.simps [of W node parent "unlogged t"] s1_def s2_def s3_def s4_def keys_def Let_def)
    have e1: "unlogged t1 = s1" by (simp add: t1_def s1_def)
    have e2: "unlogged t2 = s2" by (simp add: t2_def s2_def unlogged_apply e1)
    have f2: "skipped t2 = skipped s2" "broken t2 = broken s2"
      using unlogged_sel(3,4) [of t2] by (simp_all add: e2)
    have e3: "unlogged t3 = s3"
    proof (cases "\<not> skipped s2 \<and> \<not> broken s2 \<and> length keys \<ge> 1")
      case False
      then show ?thesis using e2 f2 by (auto simp: t3_def s3_def)
    next
      case c: True
      have nn: "\<not> \<not> isNode node" using True by simp
      have u: "s2\<lparr>parents := parents s2 @ [node]\<rparr> = unlogged (t2\<lparr>parents := parents t2 @ [node]\<rparr>)"
        using unlogged_sel(2) [of t2] by (simp add: e2)
      have "unlogged (traverse_keys (logged W) keys node (t2\<lparr>parents := parents t2 @ [node]\<rparr>))
            = traverse_keys W keys node (s2\<lparr>parents := parents s2 @ [node]\<rparr>)"
        unfolding u
        by (rule "1.hyps" [OF nn s1_def s2_def _ keys_def _ u]) (use c in simp_all)
      moreover from this have "parents (traverse_keys (logged W) keys node (t2\<lparr>parents := parents t2 @ [node]\<rparr>))
            = parents (traverse_keys W keys node (s2\<lparr>parents := parents s2 @ [node]\<rparr>))"
        using unlogged_sel(2) by metis
      ultimately show ?thesis using c f2 by (simp add: t3_def s3_def Let_def)
    qed
    have f3: "broken t3 = broken s3" using unlogged_sel(4) [of t3] by (simp add: e3)
    have e4: "unlogged t4 = s4"
      using e3 f3 by (simp add: t4_def s4_def unlogged_apply)
    show ?thesis using e4 by (simp add: l r)
  qed
next
  case (2 W node)
  then show ?case by simp
next
  case (3 W k ks node)
  have b: "broken (unlogged t) = broken t" by simp
  show ?case
  proof (cases "broken t")
    case True
    then show ?thesis by simp
  next
    case False
    define child where "child = node_get node k"
    define t' where "t' = (if isArray child then traverse_elements (logged W) (elements child) node t
                  else traverse_rec (logged W) child node t)"
    define s' where "s' = (if isArray child then traverse_elements W (elements child) node (unlogged t)
                  else traverse_rec W child node (unlogged t))"
    have nb: "\<not> broken (unlogged t)" using False by simp
    have e: "unlogged t' = s'"
      using "3.hyps"(1) [OF nb child_def _ refl] "3.hyps"(2) [OF nb child_def _ refl]
      by (auto simp: t'_def s'_def)
    have e': "unlogged t' = (if isArray child then traverse_elements W (elements child) node (unlogged t)
                  else traverse_rec W child node (unlogged t))"
      using e by (simp add: s'_def)
    have "unlogged (traverse_keys (logged W) ks node t') = traverse_keys W ks node s'"
      using "3.hyps"(3) [OF nb child_def e'] e by simp
    then show ?thesis using False unfolding t'_def s'_def child_def by (simp add: Let_def)
  qed
next
  case (4 W node)
  then show ?case by simp
next
  case (5 W x xs node)
  show ?case
  proof (cases "broken t")
    case True
    then show ?thesis by simp
  next
    case False
    have nb: "\<not> broken (unlogged t)" using False by simp
    have e: "unlogged (traverse_rec (logged W) x node t) = traverse_rec W x node (unlogged t)"
      using "5.hyps"(1) [OF nb refl] .
    show ?thesis using "5.hyps"(2) [OF nb e [symmetric]] False by (simp add: e)
  qed
qed


text \<open>
  \<^bold>\<open>C9.\<close> In the calls of a walk over any tree with any callbacks, a call during
  which \<open>break()\<close> was invoked is the last call: no \<open>enter\<close> and no \<open>leave\<close> follows
  it, neither for the node itself nor for an ancestor that is still open. The theorem
  covers a \<open>break()\<close> in \<open>enter\<close>, as the claim has it, and one in \<open>leave\<close> as well.
\<close>

theorem break_ends_traversal:
  assumes "calls K root options u = xs @ c # ys" and "breaking c"
  shows "ys = []"
proof -
  let ?W = "\<lparr>w_visitorKeys = (case o_visitorKeys options of Some vk \<Rightarrow> vk | None \<Rightarrow> KEYS K),
        w_getKeys = getKeys K,
        w_enter = with_log Enter (case o_enter options of Some f \<Rightarrow> f | None \<Rightarrow> noop),
        w_leave = with_log Leave (case o_leave options of Some f \<Rightarrow> f | None \<Rightarrow> noop)\<rparr>"
  let ?s = "(new_Traverser (u, []))\<lparr>current := JNull, parents := [], skipped := False, broken := False\<rparr>"
  let ?t = "traverse_rec ?W root JNull ?s"
  have "logs ?W" by (auto simp: logs_def)
  moreover have "break_last ?s" "\<not> broken ?s"
    by (simp_all add: break_last_def new_Traverser_def)
  ultimately have "break_last ?t" by (simp add: break_last_traverse(1))
  moreover have "snd (user ?t) = xs @ c # ys"
    using assms(1) by (simp add: calls_def Traverser_traverse_def traverse_def logged_options_def)
  ultimately have "list_all (\<lambda>c. \<not> breaking c) (butlast (xs @ c # ys))"
    by (simp add: break_last_def)
  with assms(2) show ?thesis
    by (cases ys rule: rev_cases) (auto simp: butlast_append)
qed


text \<open>A walk over a program with two statements whose \<open>enter\<close> breaks at the first one.\<close>

definition demo_tree :: jsval where
  "demo_tree =
     JObj [(''type'', JStr ''Program''),
           (''body'', JArr [JObj [(''type'', JStr ''A'')], JObj [(''type'', JStr ''B'')]])]"

definition demo_keys :: "string \<Rightarrow> string list option" where
  "demo_keys t = (if t = ''Program'' then Some [''body''] else None)"

definition demo_getKeys :: "jsval \<Rightarrow> string list" where
  "demo_getKeys n = []"

definition demo_evk :: evk where
  "demo_evk = \<lparr>KEYS = demo_keys, getKeys = demo_getKeys\<rparr>"

definition break_at_A :: "unit callback" where
  "break_at_A node parent t = (if node_type node = ''A'' then [CallBreak] else [], ())"

definition break_options :: "unit traverse_options" where
  "break_options = \<lparr>o_visitorKeys = None, o_enter = Some break_at_A, o_leave = None\<rparr>"

definition enter_Program :: call where
  "enter_Program = \<lparr>c_phase = Enter, c_node = demo_tree, c_parent = JNull, c_controls = []\<rparr>"

definition enter_A :: call where
  "enter_A =
     \<lparr>c_phase = Enter, c_node = JObj [(''type'', JStr ''A'')], c_parent = demo_tree,
      c_controls = [CallBreak]\<rparr>"

lemma break_calls: "calls demo_evk demo_tree break_options () = [enter_Program] @ enter_A # []"
  by code_simp

theorem break_ends_traversal_witness:
  "calls demo_evk demo_tree break_options () = [enter_Program] @ enter_A # [] \<and>
   breaking enter_A \<and> ([] :: call list) = []"
  using break_ends_traversal [of demo_evk demo_tree break_options "()" "[enter_Program]" enter_A "[]"]
    break_calls
  by (simp add: breaking_def enter_A_def)


section \<open>Token cursors\<close>

text \<open>
  A cursor is an object with a \<open>current\<close> field (the first component below) and a
  \<open>moveNext\<close> method. \<open>BackwardTokenCursor\<close> (its token array, \<open>index\<close> and
  \<open>indexEnd\<close>) and the step of \<open>DecorativeCursor\<close> (call the wrapped cursor, copy its
  \<open>current\<close>) are the repository's code. A read \<open>tokens[index]\<close> outside the array
  gives \<open>undefined\<close>.

  Modelled from the spec: the files \<open>cursor.js\<close>, \<open>forward-token-cursor.js\<close>,
  \<open>filter-cursor.js\<close>, \<open>skip-cursor.js\<close> and \<open>limit-cursor.js\<close> are not among the
  sources. From the spec's words: a new cursor has no current value; the forward
  cursor mirrors the backward one; \<open>moveNext\<close> "advances one step and reports whether a
  value exists"; \<open>Filter\<close> "skips values failing a predicate", \<open>Skip\<close> "discards the
  first N accepted values", \<open>Limit\<close> "stops after N values, where N=0 yields an empty
  sequence"; each decorator "delegates moveNext/current" to the cursor it wraps.
\<close>

definition array_get :: "jsval list \<Rightarrow> int \<Rightarrow> jsval" where
  "array_get xs i = (if 0 \<le> i \<and> i < int (length xs) then xs ! nat i else JUndefined)"

datatype cursor =
    ForwardTokenCursor jsval "jsval list" int int
  | BackwardTokenCursor jsval "jsval list" int int
  | FilterCursor jsval cursor "jsval \<Rightarrow> bool"
  | SkipCursor jsval cursor int
  | LimitCursor jsval cursor int

fun cursor_current :: "cursor \<Rightarrow> jsval" where
  "cursor_current (ForwardTokenCursor cur tokens i e) = cur"
| "cursor_current (BackwardTokenCursor cur tokens i e) = cur"
| "cursor_current (FilterCursor cur c p) = cur"
| "cursor_current (SkipCursor cur c n) = cur"
| "cursor_current (LimitCursor cur c n) = cur"

text \<open>A bound on the values the base cursor under a cursor can still produce.\<close>

fun remaining :: "cursor \<Rightarrow> nat" where
  "remaining (ForwardTokenCursor cur tokens i e) = nat (e - i + 1)"
| "remaining (BackwardTokenCursor cur tokens i e) = nat (i - e + 1)"
| "remaining (FilterCursor cur c p) = remaining c"
| "remaining (SkipCursor cur c n) = remaining c"
| "remaining (LimitCursor cur c n) = remaining c"

text \<open>
  \<open>moveNext\<close> returns the method's result and the cursor after the call. The loops of
  \<open>FilterCursor\<close> and \<open>SkipCursor\<close> call the wrapped cursor until it gives a value
  that counts or has no more.
\<close>

function (domintros) moveNext :: "cursor \<Rightarrow> bool \<times> cursor" where
  "moveNext (ForwardTokenCursor cur tokens i e) =
     (if i \<le> e then (True, ForwardTokenCursor (array_get tokens i) tokens (i + 1) e)
      else (False, ForwardTokenCursor cur tokens i e))"
| "moveNext (BackwardTokenCursor cur tokens i e) =
     (if i \<ge> e then (True, BackwardTokenCursor (array_get tokens i) tokens (i - 1) e)
      else (False, BackwardTokenCursor cur tokens i e))"
| "moveNext (FilterCursor cur c p) =
     (let r = moveNext c; this = FilterCursor (cursor_current (snd r)) (snd r) p in
      if fst r then (if p (cursor_current this) then (True, this) else moveNext this)
      else (False, this))"
| "moveNext (SkipCursor cur c n) =
     (if n > 0 then
        (let r = moveNext c; this = SkipCursor (cursor_current (snd r)) (snd r) (n - 1) in
         if \<not> fst r then (False, this) else moveNext this)
      else
        (let r = moveNext c in (fst r, SkipCursor (cursor_current (snd r)) (snd r) n)))"
| "moveNext (LimitCursor cur c n) =
     (if n > 0 then
        (let r = moveNext c in (fst r, LimitCursor (cursor_current (snd r)) (snd r) (n - 1)))
      else (False, LimitCursor cur c n))"
  by pat_completeness auto

lemma moveNext_remaining_dom:
  "moveNext_dom c \<Longrightarrow>
   (fst (moveNext c) \<longrightarrow> remaining (snd (moveNext c)) < remaining c) \<and>
   remaining (snd (moveNext c)) \<le> remaining c"
proof (induction c rule: moveNext.pinduct)
  case (1 cur tokens i e)
  then show ?case by (auto simp: moveNext.psimps)
next
  case (2 cur tokens i e)
  then show ?case by (auto simp: moveNext.psimps)
next
  case (3 cur c p)
  define r where "r = moveNext c"
  define this where "this = FilterCursor (cursor_current (snd r)) (snd r) p"
  have inner: "(fst r \<longrightarrow> remaining (snd r) < remaining c) \<and> remaining (snd r) \<le> remaining c"
    using "3.IH"(1) by (simp add: r_def)
  have eq: "moveNext (FilterCursor cur c p) =
      (if fst r then (if p (cursor_current this) then (True, this) else moveNext this)
       else (False, this))"
    using "3.hyps" by (simp add: moveNext.psimps r_def this_def Let_def)
  show ?case
  proof (cases "fst r \<and> \<not> p (cursor_current this)")
    case False
    then show ?thesis using inner by (auto simp: eq this_def)
  next
    case True
    have "(fst (moveNext this) \<longrightarrow> remaining (snd (moveNext this)) < remaining this) \<and>
          remaining (snd (moveNext this)) \<le> remaining this"
      using "3.IH"(2) [OF r_def this_def] True by simp
    then show ?thesis using inner True by (auto simp: eq this_def)
  qed
next
  case (4 cur c n)
  define r where "r = moveNext c"
  define this where "this = SkipCursor (cursor_current (snd r)) (snd r) (n - 1)"
  have inner: "(fst r \<longrightarrow> remaining (snd r) < remaining c) \<and> remaining (snd r) \<le> remaining c"
    using "4.IH"(1,3) by (cases "n > 0") (simp_all add: r_def)
  have eq: "moveNext (SkipCursor cur c n) =
      (if n > 0 then (if \<not> fst r then (False, this) else moveNext this)
       else (fst r, SkipCursor (cursor_current (snd r)) (snd r) n))"
    using "4.hyps" by (simp add: moveNext.psimps r_def this_def Let_def)
  show ?case
  proof (cases "n > 0 \<and> fst r")
    case False
    then show ?thesis using inner by (auto simp: eq this_def)
  next
    case True
    have "(fst (moveNext this) \<longrightarrow> remaining (snd (moveNext this)) < remaining this) \<and>
          remaining (snd (moveNext this)) \<le> remaining this"
      using "4.IH"(2) [OF _ r_def this_def] True by simp
    then show ?thesis using inner True by (auto simp: eq this_def)
  qed
next
  case (5 cur c n)
  then show ?case by (auto simp: moveNext.psimps Let_def)
qed

termination moveNext
proof (relation "measures [remaining, size]", goal_cases)
  case 1
  show ?case by simp
next
  case (2 cur c p)
  then show ?case by simp
next
  case (3 cur c p r this)
  then show ?case using moveNext_remaining_dom [of c] by simp
next
  case (4 cur c n)
  then show ?case by simp
next
  case (5 cur c n r this)
  then show ?case using moveNext_remaining_dom [of c] by simp
next
  case (6 cur c n)
  then show ?case by simp
next
  case (7 cur c n)
  then show ?case by simp
qed



declare moveNext.simps [simp del]

lemma moveNext_total: "moveNext_dom c"
  by (induction c rule: moveNext.induct) (auto intro: moveNext.domintros)

lemma moveNext_remaining:
  "fst (moveNext c) \<Longrightarrow> remaining (snd (moveNext c)) < remaining c"
  using moveNext_remaining_dom [OF moveNext_total, of c] by simp

text \<open>
  Modelled from the spec: the sequence a cursor yields is read as \<open>cursor.js\<close> (not
  among the sources) drains it, calling \<open>moveNext\<close> and collecting \<open>current\<close> while a
  value exists.
\<close>

function getAllTokens :: "cursor \<Rightarrow> jsval list" where
  "getAllTokens c =
     (let r = moveNext c in
      if fst r then cursor_current (snd r) # getAllTokens (snd r) else [])"
  by pat_completeness auto
termination
  by (relation "measure remaining") (simp_all add: moveNext_remaining)

declare getAllTokens.simps [simp del]

text \<open>
  The factory (\<open>cursors.js\<close>). Its two cursor classes are fields; the index helpers of
  \<open>utils.js\<close> (not among the sources) are parameters of the constructors. The
  constructor of \<open>ForwardTokenCursor\<close> is modelled from the spec as the mirror image of
  the backward one.
\<close>

record utils =
  getFirstIndex :: "jsval list \<Rightarrow> (int \<Rightarrow> int option) \<Rightarrow> int \<Rightarrow> int"
  getLastIndex :: "jsval list \<Rightarrow> (int \<Rightarrow> int option) \<Rightarrow> int \<Rightarrow> int"

type_synonym cursor_class =
  "jsval list \<Rightarrow> jsval list \<Rightarrow> (int \<Rightarrow> int option) \<Rightarrow> int \<Rightarrow> int \<Rightarrow> cursor"

definition new_BackwardTokenCursor :: "utils \<Rightarrow> cursor_class" where
  "new_BackwardTokenCursor U tokens comments indexMap startLoc endLoc =
     BackwardTokenCursor JNull tokens
       (getLastIndex U tokens indexMap endLoc) (getFirstIndex U tokens indexMap startLoc)"

definition new_ForwardTokenCursor :: "utils \<Rightarrow> cursor_class" where
  "new_ForwardTokenCursor U tokens comments indexMap startLoc endLoc =
     ForwardTokenCursor JNull tokens
       (getFirstIndex U tokens indexMap startLoc) (getLastIndex U tokens indexMap endLoc)"

record CursorFactory =
  TokenCursor :: cursor_class
  TokenCommentCursor :: cursor_class

definition createBaseCursor ::
  "CursorFactory \<Rightarrow> jsval list \<Rightarrow> jsval list \<Rightarrow> (int \<Rightarrow> int option) \<Rightarrow> int \<Rightarrow> int \<Rightarrow> bool \<Rightarrow> cursor" where
  "createBaseCursor F tokens comments indexMap startLoc endLoc includeComments =
     (let Cursor = (if includeComments then TokenCommentCursor F else TokenCursor F)
      in Cursor tokens comments indexMap startLoc endLoc)"

definition createCursor ::
  "CursorFactory \<Rightarrow> jsval list \<Rightarrow> jsval list \<Rightarrow> (int \<Rightarrow> int option) \<Rightarrow> int \<Rightarrow> int \<Rightarrow> bool \<Rightarrow>
   (jsval \<Rightarrow> bool) option \<Rightarrow> int \<Rightarrow> int \<Rightarrow> cursor" where
  "createCursor F tokens comments indexMap startLoc endLoc includeComments predicate skip count =
     (let cursor = createBaseCursor F tokens comments indexMap startLoc endLoc includeComments;
          cursor = (case predicate of Some p \<Rightarrow> FilterCursor JNull cursor p | None \<Rightarrow> cursor);
          cursor = (if skip \<ge> 1 then SkipCursor JNull cursor skip else cursor);
          cursor = (if count \<ge> 0 then LimitCursor JNull cursor count else cursor)
      in cursor)"

text \<open>
  \<open>exports.forward\<close> and \<open>exports.backward\<close>; the classes that merge comments into the
  tokens are not among the sources and stay parameters.
\<close>

definition forward :: "utils \<Rightarrow> cursor_class \<Rightarrow> CursorFactory" where
  "forward U ForwardTokenCommentCursor =
     \<lparr>TokenCursor = new_ForwardTokenCursor U, TokenCommentCursor = ForwardTokenCommentCursor\<rparr>"

definition backward :: "utils \<Rightarrow> cursor_class \<Rightarrow> CursorFactory" where
  "backward U BackwardTokenCommentCursor =
     \<lparr>TokenCursor = new_BackwardTokenCursor U, TokenCommentCursor = BackwardTokenCommentCursor\<rparr>"

subsection \<open>What the cursors yield\<close>

lemma getAllTokens_Forward:
  "getAllTokens (ForwardTokenCursor cur tokens i e) = map (array_get tokens) [i..e]"
proof (induction "nat (e - i + 1)" arbitrary: cur i)
  case 0
  then have "\<not> i \<le> e" by simp
  then show ?case
    by (simp add: getAllTokens.simps [of "ForwardTokenCursor cur tokens i e"] moveNext.simps(1))
next
  case (Suc m)
  then have le: "i \<le> e" by simp
  have "m = nat (e - (i + 1) + 1)" using Suc.hyps(2) by simp
  from Suc.hyps(1) [OF this]
  have "getAllTokens (ForwardTokenCursor (array_get tokens i) tokens (i + 1) e) =
        map (array_get tokens) [i + 1..e]" .
  then show ?case using le
    by (simp add: getAllTokens.simps [of "ForwardTokenCursor cur tokens i e"] moveNext.simps(1)
          upto_rec1 [of i e])
qed

lemma getAllTokens_Backward:
  "getAllTokens (BackwardTokenCursor cur tokens i e) = map (array_get tokens) (rev [e..i])"
proof (induction "nat (i - e + 1)" arbitrary: cur i)
  case 0
  then have "\<not> e \<le> i" by simp
  then show ?case
    by (simp add: getAllTokens.simps [of "BackwardTokenCursor cur tokens i e"] moveNext.simps(2))
next
  case (Suc m)
  then have le: "e \<le> i" by simp
  have "m = nat (i - 1 - e + 1)" using Suc.hyps(2) by simp
  from Suc.hyps(1) [OF this]
  have "getAllTokens (BackwardTokenCursor (array_get tokens i) tokens (i - 1) e) =
        map (array_get tokens) (rev [e..i - 1])" .
  then show ?case using le
    by (simp add: getAllTokens.simps [of "BackwardTokenCursor cur tokens i e"] moveNext.simps(2)
          upto_rec2 [of e i])
qed


lemma getAllTokens_Filter:
  "getAllTokens (FilterCursor cur c p) = filter p (getAllTokens c)"
proof (induction c arbitrary: cur rule: getAllTokens.induct)
  case (1 c)
  define r where "r = moveNext c"
  define this where "this = FilterCursor (cursor_current (snd r)) (snd r) p"
  show ?case
  proof (cases "fst r")
    case False
    then show ?thesis
      by (simp add: getAllTokens.simps [of c] getAllTokens.simps [of "FilterCursor cur c p"]
            moveNext.simps(3) r_def Let_def)
  next
    case True
    have ih: "getAllTokens this = filter p (getAllTokens (snd r))"
      unfolding this_def using "1.IH" [OF r_def True] .
    have c: "getAllTokens c = cursor_current (snd r) # getAllTokens (snd r)"
      using True by (simp add: getAllTokens.simps [of c] r_def Let_def)
    show ?thesis
    proof (cases "p (cursor_current (snd r))")
      case t: True
      have "moveNext (FilterCursor cur c p) = (True, this)"
        using True t by (simp add: moveNext.simps(3) r_def this_def Let_def)
      then show ?thesis using t ih c
        by (simp add: getAllTokens.simps [of "FilterCursor cur c p"] this_def)
    next
      case f: False
      have "moveNext (FilterCursor cur c p) = moveNext this"
        using True f by (simp add: moveNext.simps(3) r_def this_def Let_def)
      then have "getAllTokens (FilterCursor cur c p) = getAllTokens this"
        by (simp add: getAllTokens.simps [of "FilterCursor cur c p"] getAllTokens.simps [of this])
      then show ?thesis using f ih c by simp
    qed
  qed
qed



lemma getAllTokens_Skip:
  "getAllTokens (SkipCursor cur c k) = drop (nat k) (getAllTokens c)"
proof (induction c arbitrary: cur k rule: getAllTokens.induct)
  case (1 c)
  define r where "r = moveNext c"
  define this where "this = SkipCursor (cursor_current (snd r)) (snd r) (k - 1)"
  show ?case
  proof (cases "fst r")
    case False
    then have "getAllTokens c = []"
      by (simp add: getAllTokens.simps [of c] r_def)
    moreover have "\<not> fst (moveNext (SkipCursor cur c k))"
      using False by (simp add: moveNext.simps(4) r_def Let_def)
    ultimately show ?thesis
      by (simp add: getAllTokens.simps [of "SkipCursor cur c k"])
  next
    case True
    have c: "getAllTokens c = cursor_current (snd r) # getAllTokens (snd r)"
      using True by (simp add: getAllTokens.simps [of c] r_def Let_def)
    show ?thesis
    proof (cases "k > 0")
      case pos: True
      have "moveNext (SkipCursor cur c k) = moveNext this"
        using True pos by (simp add: moveNext.simps(4) r_def this_def Let_def)
      then have "getAllTokens (SkipCursor cur c k) = getAllTokens this"
        by (simp add: getAllTokens.simps [of "SkipCursor cur c k"] getAllTokens.simps [of this])
      also have "\<dots> = drop (nat (k - 1)) (getAllTokens (snd r))"
        unfolding this_def using "1.IH" [OF r_def True] .
      also have "\<dots> = drop (nat k) (getAllTokens c)"
        using pos by (cases "nat k") (simp_all add: c nat_diff_distrib)
      finally show ?thesis .
    next
      case False
      have "moveNext (SkipCursor cur c k) = (True, SkipCursor (cursor_current (snd r)) (snd r) k)"
        using True False by (simp add: moveNext.simps(4) r_def Let_def)
      then have "getAllTokens (SkipCursor cur c k) =
          cursor_current (snd r) # getAllTokens (SkipCursor (cursor_current (snd r)) (snd r) k)"
        by (simp add: getAllTokens.simps [of "SkipCursor cur c k"])
      also have "\<dots> = cursor_current (snd r) # drop (nat k) (getAllTokens (snd r))"
        using "1.IH" [OF r_def True] by simp
      finally show ?thesis using False by (simp add: c)
    qed
  qed
qed

lemma getAllTokens_Limit:
  "getAllTokens (LimitCursor cur c n) = take (nat n) (getAllTokens c)"
proof (induction c arbitrary: cur n rule: getAllTokens.induct)
  case (1 c)
  define r where "r = moveNext c"
  show ?case
  proof (cases "n > 0")
    case False
    then show ?thesis
      by (simp add: getAllTokens.simps [of "LimitCursor cur c n"] moveNext.simps(5))
  next
    case pos: True
    have m: "moveNext (LimitCursor cur c n) = (fst r, LimitCursor (cursor_current (snd r)) (snd r) (n - 1))"
      using pos by (simp add: moveNext.simps(5) r_def Let_def)
    show ?thesis
    proof (cases "fst r")
      case False
      then show ?thesis
        by (simp add: getAllTokens.simps [of c] getAllTokens.simps [of "LimitCursor cur c n"] m)
           (simp add: r_def)
    next
      case True
      have c: "getAllTokens c = cursor_current (snd r) # getAllTokens (snd r)"
        using True by (simp add: getAllTokens.simps [of c] r_def Let_def)
      have t: "take (nat n) (cursor_current (snd r) # getAllTokens (snd r)) =
               cursor_current (snd r) # take (nat (n - 1)) (getAllTokens (snd r))"
        using pos by (cases "nat n") (simp_all add: nat_diff_distrib)
      have l: "getAllTokens (LimitCursor cur c n) =
               cursor_current (snd r) # getAllTokens (LimitCursor (cursor_current (snd r)) (snd r) (n - 1))"
        using True by (simp add: getAllTokens.simps [of "LimitCursor cur c n"] m)
      show ?thesis
        unfolding l c t
        using "1.IH" [OF r_def True, of "cursor_current (snd r)" "n - 1"] by simp
    qed
  qed
qed



lemma createCursor_general:
  "getAllTokens (createCursor F tokens comments indexMap startLoc endLoc includeComments predicate skip count) =
     (if count \<ge> 0 then take (nat count) else id)
       ((if skip \<ge> 1 then drop (nat skip) else id)
         ((case predicate of Some p \<Rightarrow> filter p | None \<Rightarrow> id)
           (getAllTokens (createBaseCursor F tokens comments indexMap startLoc endLoc includeComments))))"
  by (simp add: createCursor_def Let_def getAllTokens_Filter getAllTokens_Skip getAllTokens_Limit
           split: option.splits)


text \<open>
  \<^bold>\<open>C8.\<close> For every factory (so for the forward and for the backward one), every
  token and comment sequence, every predicate, every skip count \<open>k \<ge> 1\<close> and every
  limit \<open>n \<ge> 0\<close>, the cursor that \<open>createCursor\<close> builds yields what filtering the full
  output of the base cursor, dropping \<open>k\<close> values and taking \<open>n\<close> gives; with \<open>n = 0\<close>
  that is the empty sequence.
\<close>

theorem createCursor_pipeline:
  assumes "k \<ge> 1" and "n \<ge> 0"
  shows "getAllTokens (createCursor F tokens comments indexMap startLoc endLoc includeComments (Some p) k n) =
         take (nat n) (drop (nat k) (filter p
           (getAllTokens (createBaseCursor F tokens comments indexMap startLoc endLoc includeComments))))"
  using assms by (simp add: createCursor_general)


definition loc_index :: "jsval list \<Rightarrow> (int \<Rightarrow> int option) \<Rightarrow> int \<Rightarrow> int" where
  "loc_index tokens indexMap loc = loc"

definition demo_utils :: utils where
  "demo_utils = \<lparr>getFirstIndex = loc_index, getLastIndex = loc_index\<rparr>"

definition demo_tokens :: "jsval list" where
  "demo_tokens = [JNum 10, JNum 11, JNum 12, JNum 13, JNum 14, JNum 15, JNum 16]"

definition is_not_13 :: "jsval \<Rightarrow> bool" where
  "is_not_13 v = (v \<noteq> JNum 13)"

lemma demo_cursor_backward:
  "getAllTokens (createCursor (backward demo_utils (new_BackwardTokenCursor demo_utils))
      demo_tokens [] Map.empty 1 5 False (Some is_not_13) 1 2) = [JNum 14, JNum 12]"
  by code_simp

lemma demo_cursor_forward_empty:
  "getAllTokens (createCursor (forward demo_utils (new_ForwardTokenCursor demo_utils))
      demo_tokens [] Map.empty 1 5 False (Some is_not_13) 1 0) = []"
  by code_simp

theorem createCursor_pipeline_witness:
  "(1::int) \<ge> 1 \<and> (2::int) \<ge> 0 \<and>
   take (nat 2) (drop (nat 1) (filter is_not_13
     (getAllTokens (createBaseCursor (backward demo_utils (new_BackwardTokenCursor demo_utils))
        demo_tokens [] Map.empty 1 5 False)))) = [JNum 14, JNum 12]"
  using createCursor_pipeline [of 1 2 "backward demo_utils (new_BackwardTokenCursor demo_utils)"
      demo_tokens "[]" Map.empty 1 5 False is_not_13]
    demo_cursor_backward
  by simp


section \<open>Problems and exceptions\<close>

text \<open>
  An exception is a value: the name of its class, its message, and the two properties the
  linter attaches on the way out (\<open>ruleId\<close>, \<open>currentNode\<close>). A Problem has the fields the
  linter writes and reads; an absent \<open>fatal\<close> reads as \<open>false\<close>, and the fields a rule
  fills in stay JavaScript values.
\<close>

record exn =
  exn_name :: string
  exn_message :: string
  exn_ruleId :: "string option"
  exn_currentNode :: "jsval option"

definition new_Error :: "string \<Rightarrow> exn" where
  "new_Error msg = \<lparr>exn_name = ''Error'', exn_message = msg, exn_ruleId = None, exn_currentNode = None\<rparr>"

definition new_TypeError :: "string \<Rightarrow> exn" where
  "new_TypeError msg =
     \<lparr>exn_name = ''TypeError'', exn_message = msg, exn_ruleId = None, exn_currentNode = None\<rparr>"

record problem =
  p_ruleId :: "string option"
  p_fatal :: bool
  p_severity :: jsval
  p_message :: string
  p_line :: int
  p_column :: int
  p_endLine :: "int option"
  p_endColumn :: "int option"
  p_nodeType :: jsval
  p_fix :: jsval
  p_suggestions :: jsval

record position =
  pos_line :: int
  pos_column :: int

record location =
  loc_start :: position
  loc_end :: position

definition DEFAULT_ERROR_LOC :: location where
  "DEFAULT_ERROR_LOC =
     \<lparr>loc_start = \<lparr>pos_line = 1, pos_column = 0\<rparr>, loc_end = \<lparr>pos_line = 1, pos_column = 1\<rparr>\<rparr>"

record linting_problem_options =
  lp_ruleId :: "string option"
  lp_loc :: "location option"
  lp_message :: "string option"
  lp_severity :: "jsval option"

definition quoted :: "string \<Rightarrow> string" where
  "quoted s = [CHR 0x27] @ s @ [CHR 0x27]"

definition createLintingProblem :: "linting_problem_options \<Rightarrow> problem" where
  "createLintingProblem options =
     (let ruleId = lp_ruleId options;
          loc = (case lp_loc options of Some l \<Rightarrow> l | None \<Rightarrow> DEFAULT_ERROR_LOC);
          message = (case lp_message options of
                       Some m \<Rightarrow> m
                     | None \<Rightarrow> ''Definition for rule '' @
                         quoted (case lp_ruleId options of Some r \<Rightarrow> r | None \<Rightarrow> ''undefined'') @
                         '' was not found.'');
          severity = (case lp_severity options of Some s \<Rightarrow> s | None \<Rightarrow> JNum 2)
      in \<lparr>p_ruleId = ruleId,
          p_fatal = False,
          p_severity = severity,
          p_message = message,
          p_line = pos_line (loc_start loc),
          p_column = pos_column (loc_start loc) + 1,
          p_endLine = Some (pos_line (loc_end loc)),
          p_endColumn = Some (pos_column (loc_end loc) + 1),
          p_nodeType = JNull,
          p_fix = JUndefined,
          p_suggestions = JUndefined\<rparr>)"


section \<open>Rules and the dispatcher\<close>

text \<open>
  What \<open>runRules\<close> calls but does not contain is a parameter: the parsers, the report
  translator, the event generators, the scope analysis, the directive step and the text
  patcher are the fields of \<open>externals\<close> below. The code of a rule is seen through what it
  does to the linter: a call of \<open>create\<close> or of a listener is the list of \<open>report\<close> calls
  it makes, in order, each with its arguments, followed by its return value or the
  exception it throws. The linter's \<open>report\<close> runs on each of them; an exception of
  \<open>report\<close> ends the call, a rule being taken not to catch it. An event generator is
  created with the selectors that have listeners and, for each node entered or left,
  yields the events to emit, in order, together with its next state.
\<close>

record source_code =
  sc_text :: string
  sc_ast :: jsval
  sc_visitorKeys :: "(string \<Rightarrow> string list option) option"
  sc_parserServices :: jsval
  sc_scopeManager :: jsval

record parse_exn =
  pe_message :: string
  pe_lineNumber :: int
  pe_column :: int

type_synonym language_options = jsval

type_synonym parser = "string \<Rightarrow> language_options \<Rightarrow> string \<Rightarrow> parse_exn + source_code"

record 'a call_result =
  reports :: "jsval list list"
  outcome :: "exn + 'a"

record traversal_info =
  isEntering :: bool
  ti_node :: jsval
  ti_parent :: jsval

type_synonym listener = "traversal_info \<Rightarrow> jsval list \<Rightarrow> unit call_result"

record rule_context =
  ctx_id :: string
  ctx_options :: "jsval list"
  ctx_filename :: string
  ctx_physicalFilename :: string
  ctx_sourceCode :: source_code
  ctx_parserOptions :: jsval
  ctx_parserPath :: "string option"
  ctx_languageOptions :: language_options
  ctx_parserServices :: jsval
  ctx_settings :: jsval

record rule =
  meta :: jsval
  create :: "rule_context \<Rightarrow> (string \<times> listener) list call_result"

record translator_metadata =
  tm_ruleId :: string
  tm_severity :: jsval
  tm_sourceCode :: source_code
  tm_messageIds :: jsval
  tm_disableFixes :: bool

record event_generator =
  gen_new :: "string list \<Rightarrow> exn + jsval"
  gen_enterNode :: "jsval \<Rightarrow> jsval \<Rightarrow> exn + (string \<times> jsval list) list \<times> jsval"
  gen_leaveNode :: "jsval \<Rightarrow> jsval \<Rightarrow> exn + (string \<times> jsval list) list \<times> jsval"



text \<open>String conversion, as a template literal performs it.\<close>

fun digits :: "nat \<Rightarrow> string" where
  "digits n = (if n < 10 then [char_of (48 + n)] else digits (n div 10) @ [char_of (48 + n mod 10)])"

declare digits.simps [simp del]

definition int_String :: "int \<Rightarrow> string" where
  "int_String i = (if i < 0 then ''-'' @ digits (nat (- i)) else digits (nat i))"

fun intersperse :: "string \<Rightarrow> string list \<Rightarrow> string" where
  "intersperse sep [] = []"
| "intersperse sep [x] = x"
| "intersperse sep (x # y # ys) = x @ sep @ intersperse sep (y # ys)"

fun js_String :: "jsval \<Rightarrow> string" where
  "js_String JUndefined = ''undefined''"
| "js_String JNull = ''null''"
| "js_String (JBool b) = (if b then ''true'' else ''false'')"
| "js_String (JNum n) = int_String n"
| "js_String (JStr s) = s"
| "js_String (JArr xs) =
     intersperse '','' (map (\<lambda>x. if x = JUndefined \<or> x = JNull then [] else js_String x) xs)"
| "js_String (JObj ps) = ''[object Object]''"
| "js_String (JBuiltin b) =
     (case b of
        Object_constructor \<Rightarrow> ''function Object() { [native code] }''
      | Object_prototype \<Rightarrow> ''[object Object]''
      | Object_method m \<Rightarrow> ''function '' @ m @ ''() { [native code] }'')"

text \<open>
  The own property keys of an object come in the order of \<open>OrdinaryOwnPropertyKeys\<close>: the
  array indices (the canonical numeric strings below \<open>2\<^sup>3\<^sup>2 - 1\<close>) in ascending order, then
  the other names in the order of their creation. In a list of properties the first
  entry for a name is the property, as \<open>get_prop\<close> reads it.
\<close>

definition index_value :: "string \<Rightarrow> int" where
  "index_value k = foldl (\<lambda>n c. 10 * n + (of_char c - 48)) 0 k"

definition is_array_index :: "string \<Rightarrow> bool" where
  "is_array_index k =
     (if k \<noteq> [] \<and> list_all (\<lambda>c. 48 \<le> (of_char c :: nat) \<and> (of_char c :: nat) \<le> 57) k
      then (k = ''0'' \<or> hd k \<noteq> CHR ''0'') \<and> index_value k < 4294967295
      else False)"

fun first_entries :: "(string \<times> jsval) list \<Rightarrow> (string \<times> jsval) list" where
  "first_entries [] = []"
| "first_entries (p # ps) = p # first_entries (filter (\<lambda>q. fst q \<noteq> fst p) ps)"

definition property_order :: "(string \<times> jsval) list \<Rightarrow> (string \<times> jsval) list" where
  "property_order ps =
     sort_key (\<lambda>p. index_value (fst p)) (filter (\<lambda>p. is_array_index (fst p)) ps) @
     filter (\<lambda>p. \<not> is_array_index (fst p)) ps"

text \<open>
  The own enumerable properties of a value, in that order, and
  \<open>Object.assign(target, ...sources)\<close>, which assigns them to the target one by one: a name
  the target has keeps its place and takes the new value. The assignment to \<open>__proto__\<close>
  goes to the setter inherited from \<open>Object.prototype\<close> and creates no own property (the
  prototype it may replace is not read here: only own keys of the result are looked up).
\<close>

definition own_properties :: "jsval \<Rightarrow> (string \<times> jsval) list" where
  "own_properties x =
     (case x of
        JObj ps \<Rightarrow> property_order (first_entries ps)
      | JArr xs \<Rightarrow> map (\<lambda>(i, v). (digits i, v)) (enumerate 0 xs)
      | JStr s \<Rightarrow> map (\<lambda>(i, c). (digits i, JStr [c])) (enumerate 0 s)
      | _ \<Rightarrow> [])"

fun set_prop :: "string \<Rightarrow> jsval \<Rightarrow> (string \<times> jsval) list \<Rightarrow> (string \<times> jsval) list" where
  "set_prop k v [] = [(k, v)]"
| "set_prop k v (p # ps) = (if fst p = k then (k, v) # ps else p # set_prop k v ps)"

definition Object_assign :: "(string \<times> jsval) list \<Rightarrow> jsval list \<Rightarrow> (string \<times> jsval) list" where
  "Object_assign target sources =
     property_order
       (foldl (\<lambda>t source.
                 foldl (\<lambda>t (k, v). if k = ''__proto__'' then t else set_prop k v t) t
                   (own_properties source))
          target sources)"

datatype fix_option = FixBool bool | FixPredicate "problem \<Rightarrow> bool"

record fixed_result =
  fr_fixed :: bool
  fr_messages :: "problem list"
  fr_output :: string

record verify_options =
  vo_allowInlineConfig :: jsval
  vo_disableFixes :: jsval
  vo_filename :: "string option"
  vo_reportUnusedDisableDirectives :: jsval
  vo_physicalFilename :: "string option"
  vo_fix :: "fix_option option"

record normalized_options =
  no_filename :: string
  no_allowInlineConfig :: bool
  no_warnInlineConfig :: "string option"
  no_reportUnusedDisableDirectives :: jsval
  no_disableFixes :: bool

datatype config_parser = ParserUnset | ParserName string | ParserObject "string option" parser

record config =
  cfg_configNameOfNoInlineConfig :: jsval
  cfg_env :: jsval
  cfg_globals :: jsval
  cfg_linterOptions :: jsval
  cfg_noInlineConfig :: jsval
  cfg_parser :: config_parser
  cfg_parserOptions :: jsval
  cfg_reportUnusedDisableDirectives :: jsval
  cfg_rules :: jsval
  cfg_settings :: jsval

record config_array =
  ca_env :: jsval
  ca_baseConfig :: jsval
  ca_settings :: jsval

record disable_directives_arguments =
  dd_directives :: "jsval list"
  dd_disableFixes :: bool
  dd_problems :: "problem list"
  dd_reportUnusedDisableDirectives :: jsval

record externals =
  E_evk :: evk
  E_espree :: parser
  E_createLanguageOptions :: "parser \<Rightarrow> config \<Rightarrow> language_options"
  E_analyzeScope :: "jsval \<Rightarrow> language_options \<Rightarrow> jsval"
  E_addDeclaredGlobals :: "jsval \<Rightarrow> jsval \<Rightarrow> jsval"
  E_createReportTranslator :: "translator_metadata \<Rightarrow> jsval list \<Rightarrow> exn + problem"
  E_NodeEventGenerator :: event_generator
  E_CodePathAnalyzer :: event_generator
  E_applyDisableDirectives :: "disable_directives_arguments \<Rightarrow> problem list"
  E_applyFixes :: "string \<Rightarrow> problem list \<Rightarrow> fix_option \<Rightarrow> fixed_result"

record slots =
  parserMap :: "string \<Rightarrow> parser option"
  ruleMap :: "string \<Rightarrow> rule option"

definition FIXABLE_MESSAGE :: string where
  "FIXABLE_MESSAGE =
     ''Fixable rules must set the `meta.fixable` property to \"code\" or \"whitespace\".''"

definition SUGGESTION_FLAG_MESSAGE :: string where
  "SUGGESTION_FLAG_MESSAGE =
     ''Rules with suggestions must set the `meta.hasSuggestions` property to `true`. `meta.docs.suggestion` is ignored by ESLint.''"

definition SUGGESTIONS_MESSAGE :: string where
  "SUGGESTIONS_MESSAGE =
     ''Rules with suggestions must set the `meta.hasSuggestions` property to `true`.''"

definition report ::
  "externals \<Rightarrow> translator_metadata \<Rightarrow> rule \<Rightarrow> jsval list \<Rightarrow> problem list \<Rightarrow> exn + problem list" where
  "report E M rule args lintingProblems =
     (case E_createReportTranslator E M args of
        Inl e \<Rightarrow> Inl e
      | Inr problem \<Rightarrow>
          if truthy (p_fix problem) \<and> \<not> truthy (node_get (meta rule) ''fixable'')
          then Inl (new_Error FIXABLE_MESSAGE)
          else if truthy (p_suggestions problem) \<and>
                  \<not> (truthy (meta rule) \<and> node_get (meta rule) ''hasSuggestions'' = JBool True)
          then (if truthy (meta rule) \<and> truthy (node_get (meta rule) ''docs'') \<and>
                   node_get (node_get (meta rule) ''docs'') ''suggestion'' \<noteq> JUndefined
                then Inl (new_Error SUGGESTION_FLAG_MESSAGE)
                else Inl (new_Error SUGGESTIONS_MESSAGE))
          else Inr (lintingProblems @ [problem]))"

fun run_reports ::
  "externals \<Rightarrow> translator_metadata \<Rightarrow> rule \<Rightarrow> jsval list list \<Rightarrow> problem list \<Rightarrow> exn + problem list" where
  "run_reports E M rule [] lintingProblems = Inr lintingProblems"
| "run_reports E M rule (args # rest) lintingProblems =
     (case report E M rule args lintingProblems of
        Inl e \<Rightarrow> Inl e
      | Inr lintingProblems' \<Rightarrow> run_reports E M rule rest lintingProblems')"

definition run_call ::
  "externals \<Rightarrow> translator_metadata \<Rightarrow> rule \<Rightarrow> 'a call_result \<Rightarrow> problem list \<Rightarrow> exn + 'a \<times> problem list" where
  "run_call E M rule c lintingProblems =
     (case run_reports E M rule (reports c) lintingProblems of
        Inl e \<Rightarrow> Inl e
      | Inr lintingProblems' \<Rightarrow>
          (case outcome c of Inl e \<Rightarrow> Inl e | Inr v \<Rightarrow> Inr (v, lintingProblems')))"

definition createRuleListeners ::
  "externals \<Rightarrow> translator_metadata \<Rightarrow> rule \<Rightarrow> rule_context \<Rightarrow> problem list \<Rightarrow>
   exn + (string \<times> listener) list \<times> problem list" where
  "createRuleListeners E M rule ruleContext lintingProblems =
     (case run_call E M rule (create rule ruleContext) lintingProblems of
        Inl ex \<Rightarrow>
          Inl (ex\<lparr>exn_message :=
                 ''Error while loading rule '' @ quoted (ctx_id ruleContext) @ '': '' @ exn_message ex\<rparr>)
      | Inr r \<Rightarrow> Inr r)"

definition getRuleOptions :: "jsval \<Rightarrow> jsval list" where
  "getRuleOptions ruleConfig = (case ruleConfig of JArr xs \<Rightarrow> drop 1 xs | _ \<Rightarrow> [])"

record handler =
  h_metadata :: translator_metadata
  h_rule :: rule
  h_listener :: listener

record dispatcher =
  d_lintingProblems :: "problem list"
  d_emitter :: "(string \<times> handler) list"

text \<open>
  The arguments of \<open>runRules\<close>. The object \<open>configuredRules\<close> is the list of its own
  properties in the order of \<open>Object.keys\<close>, which is the order \<open>Object_assign\<close> returns
  them in.
\<close>

record run_parameters =
  rp_sourceCode :: source_code
  rp_configuredRules :: "(string \<times> jsval) list"
  rp_ruleMapper :: "string \<Rightarrow> rule option"
  rp_parserName :: "string option"
  rp_languageOptions :: language_options
  rp_settings :: jsval
  rp_filename :: string
  rp_disableFixes :: bool
  rp_physicalFilename :: "string option"

definition setup_rule :: "externals \<Rightarrow> run_parameters \<Rightarrow> string \<Rightarrow> dispatcher \<Rightarrow> exn + dispatcher" where
  "setup_rule E P ruleId D =
     (let severity = getRuleSeverity (get_prop (rp_configuredRules P) ruleId) in
      if severity = JNum 0 then Inr D
      else
        (case rp_ruleMapper P ruleId of
           None \<Rightarrow>
             Inr (D\<lparr>d_lintingProblems := d_lintingProblems D @
                    [createLintingProblem
                       \<lparr>lp_ruleId = Some ruleId, lp_loc = None, lp_message = None, lp_severity = None\<rparr>]\<rparr>)
         | Some rule \<Rightarrow>
             (let messageIds = node_get (meta rule) ''messages'';
                  M = \<lparr>tm_ruleId = ruleId, tm_severity = severity, tm_sourceCode = rp_sourceCode P,
                       tm_messageIds = messageIds, tm_disableFixes = rp_disableFixes P\<rparr>;
                  ruleContext =
                    \<lparr>ctx_id = ruleId,
                     ctx_options = getRuleOptions (get_prop (rp_configuredRules P) ruleId),
                     ctx_filename = rp_filename P,
                     ctx_physicalFilename =
                       (case rp_physicalFilename P of
                          Some f \<Rightarrow> if f \<noteq> [] then f else rp_filename P
                        | None \<Rightarrow> rp_filename P),
                     ctx_sourceCode = rp_sourceCode P,
                     ctx_parserOptions = node_get (rp_languageOptions P) ''parserOptions'',
                     ctx_parserPath = rp_parserName P,
                     ctx_languageOptions = rp_languageOptions P,
                     ctx_parserServices = sc_parserServices (rp_sourceCode P),
                     ctx_settings = rp_settings P\<rparr>
              in case createRuleListeners E M rule ruleContext (d_lintingProblems D) of
                   Inl e \<Rightarrow> Inl e
                 | Inr (ruleListeners, lintingProblems') \<Rightarrow>
                     Inr \<lparr>d_lintingProblems = lintingProblems',
                          d_emitter = d_emitter D @
                            map (\<lambda>(selector, ruleListener).
                                   (selector, \<lparr>h_metadata = M, h_rule = rule, h_listener = ruleListener\<rparr>))
                              ruleListeners\<rparr>)))"

fun setup_rules :: "externals \<Rightarrow> run_parameters \<Rightarrow> string list \<Rightarrow> dispatcher \<Rightarrow> exn + dispatcher" where
  "setup_rules E P [] D = Inr D"
| "setup_rules E P (ruleId # rest) D =
     (case setup_rule E P ruleId D of Inl e \<Rightarrow> Inl e | Inr D' \<Rightarrow> setup_rules E P rest D')"

definition ruleErrorHandler ::
  "externals \<Rightarrow> handler \<Rightarrow> traversal_info \<Rightarrow> jsval list \<Rightarrow> problem list \<Rightarrow> exn + problem list" where
  "ruleErrorHandler E h info listenerArgs lintingProblems =
     (case run_call E (h_metadata h) (h_rule h) (h_listener h info listenerArgs) lintingProblems of
        Inl e \<Rightarrow> Inl (e\<lparr>exn_ruleId := Some (tm_ruleId (h_metadata h))\<rparr>)
      | Inr (u, lintingProblems') \<Rightarrow> Inr lintingProblems')"

fun call_listeners ::
  "externals \<Rightarrow> handler list \<Rightarrow> traversal_info \<Rightarrow> jsval list \<Rightarrow> problem list \<Rightarrow> exn + problem list" where
  "call_listeners E [] info args lintingProblems = Inr lintingProblems"
| "call_listeners E (h # hs) info args lintingProblems =
     (case ruleErrorHandler E h info args lintingProblems of
        Inl e \<Rightarrow> Inl e
      | Inr lintingProblems' \<Rightarrow> call_listeners E hs info args lintingProblems')"

definition emit ::
  "externals \<Rightarrow> (string \<times> handler) list \<Rightarrow> traversal_info \<Rightarrow> string \<times> jsval list \<Rightarrow> problem list \<Rightarrow>
   exn + problem list" where
  "emit E listeners info ev lintingProblems =
     call_listeners E (map snd (filter (\<lambda>(eventName, h). eventName = fst ev) listeners))
       info (snd ev) lintingProblems"

fun emit_all ::
  "externals \<Rightarrow> (string \<times> handler) list \<Rightarrow> traversal_info \<Rightarrow> (string \<times> jsval list) list \<Rightarrow>
   problem list \<Rightarrow> exn + problem list" where
  "emit_all E listeners info [] lintingProblems = Inr lintingProblems"
| "emit_all E listeners info (ev # evs) lintingProblems =
     (case emit E listeners info ev lintingProblems of
        Inl e \<Rightarrow> Inl e
      | Inr lintingProblems' \<Rightarrow> emit_all E listeners info evs lintingProblems')"

definition dispatch_node ::
  "externals \<Rightarrow> event_generator \<Rightarrow> (string \<times> handler) list \<Rightarrow> traversal_info \<Rightarrow>
   jsval \<times> problem list \<Rightarrow> exn + jsval \<times> problem list" where
  "dispatch_node E G listeners traversalInfo s =
     (let currentNode = ti_node traversalInfo in
      case (case (if isEntering traversalInfo then gen_enterNode G currentNode (fst s)
                  else gen_leaveNode G currentNode (fst s)) of
              Inl e \<Rightarrow> Inl e
            | Inr (events, g) \<Rightarrow>
                (case emit_all E listeners traversalInfo events (snd s) of
                   Inl e \<Rightarrow> Inl e
                 | Inr lintingProblems' \<Rightarrow> Inr (g, lintingProblems'))) of
        Inl err \<Rightarrow> Inl (err\<lparr>exn_currentNode := Some currentNode\<rparr>)
      | Inr s' \<Rightarrow> Inr s')"

fun dispatch_queue ::
  "externals \<Rightarrow> event_generator \<Rightarrow> (string \<times> handler) list \<Rightarrow> traversal_info list \<Rightarrow>
   jsval \<times> problem list \<Rightarrow> exn + jsval \<times> problem list" where
  "dispatch_queue E G listeners [] s = Inr s"
| "dispatch_queue E G listeners (traversalInfo # rest) s =
     (case dispatch_node E G listeners traversalInfo s of
        Inl e \<Rightarrow> Inl e
      | Inr s' \<Rightarrow> dispatch_queue E G listeners rest s')"

definition queue_enter :: "traversal_info list callback" where
  "queue_enter n p t = ([], user t @ [\<lparr>isEntering = True, ti_node = n, ti_parent = p\<rparr>])"

definition queue_leave :: "traversal_info list callback" where
  "queue_leave n p t = ([], user t @ [\<lparr>isEntering = False, ti_node = n, ti_parent = p\<rparr>])"

definition build_nodeQueue :: "externals \<Rightarrow> source_code \<Rightarrow> traversal_info list" where
  "build_nodeQueue E sourceCode =
     user (Traverser_traverse (E_evk E) (sc_ast sourceCode)
             \<lparr>o_visitorKeys = sc_visitorKeys sourceCode,
              o_enter = Some queue_enter, o_leave = Some queue_leave\<rparr> [])"

definition runRules :: "externals \<Rightarrow> run_parameters \<Rightarrow> exn + problem list" where
  "runRules E P =
     (let nodeQueue = build_nodeQueue E (rp_sourceCode P) in
      case setup_rules E P (map fst (rp_configuredRules P)) \<lparr>d_lintingProblems = [], d_emitter = []\<rparr> of
        Inl e \<Rightarrow> Inl e
      | Inr D \<Rightarrow>
          (case nodeQueue of
             [] \<Rightarrow> Inl (new_TypeError ''Cannot read properties of undefined (reading 'node')'')
           | first # _ \<Rightarrow>
               (let eventGenerator =
                      (if node_type (ti_node first) = ''Program'' then E_CodePathAnalyzer E
                       else E_NodeEventGenerator E)
                in case gen_new eventGenerator (map fst (d_emitter D)) of
                     Inl e \<Rightarrow> Inl e
                   | Inr g \<Rightarrow>
                       (case dispatch_queue E eventGenerator (d_emitter D) nodeQueue (g, d_lintingProblems D) of
                          Inl e \<Rightarrow> Inl e
                        | Inr s \<Rightarrow> Inr (snd s)))))"


section \<open>One verification pass\<close>

text \<open>
  \<open>#verifyWithoutProcessors\<close> and \<open>#verifyWithConfigArray\<close>. In this code \<open>getEnv\<close> returns
  \<open>null\<close> for every name, so no environment is enabled, and the directives of inline
  comments are the empty record the method starts from. An options argument that was
  not passed is \<open>None\<close>; reading a property of it throws.
\<close>

definition split_slash :: "string \<Rightarrow> string list" where
  "split_slash s = foldr (\<lambda>c parts. if c = CHR ''/'' then [] # parts else (c # hd parts) # tl parts) s [[]]"

definition lastIndexOf :: "string list \<Rightarrow> string \<Rightarrow> nat option" where
  "lastIndexOf parts x =
     (case filter (\<lambda>i. parts ! i = x) (rev [0..<length parts]) of [] \<Rightarrow> None | i # _ \<Rightarrow> Some i)"

definition normalizeFilename :: "string \<Rightarrow> string" where
  "normalizeFilename filename =
     (let parts = split_slash filename in
      case lastIndexOf parts ''<text>'' of
        None \<Rightarrow> filename
      | Some index \<Rightarrow> intersperse ''/'' (drop index parts))"

definition normalizeVerifyOptions :: "verify_options option \<Rightarrow> config \<Rightarrow> exn + normalized_options" where
  "normalizeVerifyOptions providedOptions config =
     (let linterOptions_noInlineConfig =
            (if truthy (cfg_linterOptions config) then node_get (cfg_linterOptions config) ''noInlineConfig''
             else cfg_noInlineConfig config);
          linterOptions_reportUnusedDisableDirectives =
            (if truthy (cfg_linterOptions config)
             then node_get (cfg_linterOptions config) ''reportUnusedDisableDirectives''
             else cfg_reportUnusedDisableDirectives config);
          disableInlineConfig = (linterOptions_noInlineConfig = JBool True)
      in case providedOptions of
           None \<Rightarrow>
             Inl (new_TypeError ''Cannot read properties of undefined (reading 'allowInlineConfig')'')
         | Some providedOptions \<Rightarrow>
             (let ignoreInlineConfig = (vo_allowInlineConfig providedOptions = JBool False);
                  configNameOfNoInlineConfig =
                    (if truthy (cfg_configNameOfNoInlineConfig config)
                     then '' ('' @ js_String (cfg_configNameOfNoInlineConfig config) @ '')''
                     else []);
                  reportUnusedDisableDirectives = vo_reportUnusedDisableDirectives providedOptions;
                  reportUnusedDisableDirectives =
                    (case reportUnusedDisableDirectives of
                       JBool b \<Rightarrow> JStr (if b then ''error'' else ''off'')
                     | _ \<Rightarrow> reportUnusedDisableDirectives);
                  reportUnusedDisableDirectives =
                    (case reportUnusedDisableDirectives of
                       JStr s \<Rightarrow> reportUnusedDisableDirectives
                     | _ \<Rightarrow> JStr (if truthy linterOptions_reportUnusedDisableDirectives
                                    then ''warn'' else ''off''))
              in Inr \<lparr>no_filename =
                         normalizeFilename
                           (case vo_filename providedOptions of
                              Some f \<Rightarrow> if f \<noteq> [] then f else ''<input>''
                            | None \<Rightarrow> ''<input>''),
                       no_allowInlineConfig = (\<not> ignoreInlineConfig),
                       no_warnInlineConfig =
                         (if disableInlineConfig \<and> \<not> ignoreInlineConfig
                          then Some (''your config'' @ configNameOfNoInlineConfig) else None),
                       no_reportUnusedDisableDirectives = reportUnusedDisableDirectives,
                       no_disableFixes = truthy (vo_disableFixes providedOptions)\<rparr>))"



text \<open>
  \<open>parse\<close>: the parser stands for the body of the \<open>try\<close> block (the call of the
  parser, the scope analysis and the construction of the \<open>SourceCode\<close> object); an
  exception there becomes the single fatal problem. The message loses a leading
  \<open>line N:\<close> (the pattern \<open>/^line \d+:/iu\<close>) and is trimmed.
\<close>

definition is_digit :: "char \<Rightarrow> bool" where
  "is_digit c = (48 \<le> (of_char c :: nat) \<and> (of_char c :: nat) \<le> 57)"

definition is_space :: "char \<Rightarrow> bool" where
  "is_space c = ((of_char c :: nat) \<in> {9, 10, 11, 12, 13, 32, 160})"

definition strip_line_number :: "string \<Rightarrow> string" where
  "strip_line_number s =
     (let rest = dropWhile is_digit (drop 5 s) in
      if toLowerCase (take 5 s) = ''line '' \<and> takeWhile is_digit (drop 5 s) \<noteq> [] \<and> take 1 rest = '':''
      then drop 1 rest else s)"

definition trim :: "string \<Rightarrow> string" where
  "trim s = rev (dropWhile is_space (rev (dropWhile is_space s)))"

definition parse :: "parser \<Rightarrow> string \<Rightarrow> language_options \<Rightarrow> string \<Rightarrow> problem + source_code" where
  "parse parser text_arg languageOptions filePath =
     (case parser text_arg languageOptions filePath of
        Inr sourceCode \<Rightarrow> Inr sourceCode
      | Inl ex \<Rightarrow>
          (let message = ''Parsing error: '' @ trim (strip_line_number (pe_message ex))
           in Inl \<lparr>p_ruleId = None,
                   p_fatal = True,
                   p_severity = JNum 2,
                   p_message = message,
                   p_line = pe_lineNumber ex,
                   p_column = pe_column ex,
                   p_endLine = None,
                   p_endColumn = None,
                   p_nodeType = JUndefined,
                   p_fix = JUndefined,
                   p_suggestions = JUndefined\<rparr>))"

text \<open>
  The comparison function of the sort, \<open>a.line - b.line || a.column - b.column\<close>, and
  the stable sort by it.
\<close>

definition compare_problems :: "problem \<Rightarrow> problem \<Rightarrow> int" where
  "compare_problems problemA problemB =
     (if p_line problemA - p_line problemB \<noteq> 0 then p_line problemA - p_line problemB
      else p_column problemA - p_column problemB)"

fun insert_problem :: "problem \<Rightarrow> problem list \<Rightarrow> problem list" where
  "insert_problem x [] = [x]"
| "insert_problem x (y # ys) =
     (if compare_problems y x \<le> 0 then y # insert_problem x ys else x # y # ys)"

definition sort_problems :: "problem list \<Rightarrow> problem list" where
  "sort_problems ps = foldl (\<lambda>sorted p. insert_problem p sorted) [] ps"

text \<open>The line of the node an exception was raised at, for the message.\<close>

definition currentNode_line :: "jsval \<Rightarrow> exn + jsval" where
  "currentNode_line currentNode =
     (let loc = node_get currentNode ''loc'' in
      if loc = JUndefined \<or> loc = JNull
      then Inl (new_TypeError (''Cannot read properties of '' @ js_String loc @ '' (reading 'start')''))
      else
        (let start = node_get loc ''start'' in
         if start = JUndefined \<or> start = JNull
         then Inl (new_TypeError
                     (''Cannot destructure property 'line' of 'err.currentNode.loc.start' as it is '' @
                      js_String start @ ''.''))
         else Inr (node_get start ''line'')))"

definition annotate :: "normalized_options \<Rightarrow> exn \<Rightarrow> exn" where
  "annotate options err =
     (let err = err\<lparr>exn_message := exn_message err @ ''\<newline>Occurred while linting '' @ no_filename options\<rparr>
      in case (case exn_currentNode err of
                 None \<Rightarrow> Inr err
               | Some currentNode \<Rightarrow>
                   (case currentNode_line currentNode of
                      Inl e \<Rightarrow> Inl e
                    | Inr l \<Rightarrow> Inr (err\<lparr>exn_message := exn_message err @ '':'' @ js_String l\<rparr>))) of
           Inl e \<Rightarrow> e
         | Inr err \<Rightarrow>
             (case exn_ruleId err of
                None \<Rightarrow> err
              | Some r \<Rightarrow>
                  if r \<noteq> [] then err\<lparr>exn_message := exn_message err @ ''\<newline>Rule: \"'' @ r @ ''\"''\<rparr>
                  else err))"

definition DEFAULT_PARSER_NAME :: string where
  "DEFAULT_PARSER_NAME = ''espree''"

definition parser_not_found :: "string \<Rightarrow> problem" where
  "parser_not_found name =
     \<lparr>p_ruleId = None,
      p_fatal = True,
      p_severity = JNum 2,
      p_message = ''Configured parser '' @ quoted name @ '' was not found.'',
      p_line = 0,
      p_column = 0,
      p_endLine = None,
      p_endColumn = None,
      p_nodeType = JUndefined,
      p_fix = JUndefined,
      p_suggestions = JUndefined\<rparr>"

definition resolveGlobals :: "jsval \<Rightarrow> jsval list \<Rightarrow> jsval" where
  "resolveGlobals providedGlobals enabledEnvironments =
     JObj (Object_assign []
       (map (\<lambda>env. node_get env ''globals'')
          (filter (\<lambda>env. truthy (node_get env ''globals'')) enabledEnvironments) @ [providedGlobals]))"

definition empty_config :: config where
  "empty_config =
     \<lparr>cfg_configNameOfNoInlineConfig = JUndefined, cfg_env = JUndefined, cfg_globals = JUndefined,
      cfg_linterOptions = JUndefined, cfg_noInlineConfig = JUndefined, cfg_parser = ParserUnset,
      cfg_parserOptions = JUndefined, cfg_reportUnusedDisableDirectives = JUndefined,
      cfg_rules = JUndefined, cfg_settings = JUndefined\<rparr>"

definition verifyWithoutProcessors ::
  "externals \<Rightarrow> slots \<Rightarrow> string + source_code \<Rightarrow> config option \<Rightarrow> verify_options option \<Rightarrow>
   exn + problem list" where
  "verifyWithoutProcessors E S textOrSourceCode providedConfig providedOptions =
     (let config = (case providedConfig of Some c \<Rightarrow> c | None \<Rightarrow> empty_config) in
      case normalizeVerifyOptions providedOptions config of
        Inl e \<Rightarrow> Inl e
      | Inr options \<Rightarrow>
          (let lastSourceCode = (case textOrSourceCode of Inl t \<Rightarrow> None | Inr sc \<Rightarrow> Some sc);
               text_arg = (case textOrSourceCode of Inl t \<Rightarrow> t | Inr sc \<Rightarrow> sc_text sc)
           in case (case cfg_parser config of
                      ParserObject filePath definition \<Rightarrow> Inr (filePath, definition)
                    | ParserName name \<Rightarrow>
                        (case parserMap S name of
                           None \<Rightarrow> Inl [parser_not_found name]
                         | Some p \<Rightarrow> Inr (Some name, p))
                    | ParserUnset \<Rightarrow> Inr (Some DEFAULT_PARSER_NAME, E_espree E)) of
                Inl problems \<Rightarrow> Inr problems
              | Inr (parserName, parser) \<Rightarrow>
                  (let enabledEnvs = [];
                       configuredGlobals = resolveGlobals (js_or (cfg_globals config) (JObj [])) enabledEnvs;
                       settings = js_or (cfg_settings config) (JObj []);
                       languageOptions = E_createLanguageOptions E parser config
                   in case (case lastSourceCode of
                              None \<Rightarrow> parse parser text_arg languageOptions (no_filename options)
                            | Some sc \<Rightarrow>
                                if \<not> truthy (sc_scopeManager sc)
                                then Inr (sc\<lparr>sc_scopeManager := E_analyzeScope E (sc_ast sc) languageOptions\<rparr>)
                                else Inr sc) of
                        Inl error \<Rightarrow> Inr [error]
                      | Inr lastSourceCode \<Rightarrow>
                          (let sourceCode =
                                 lastSourceCode\<lparr>sc_scopeManager :=
                                   E_addDeclaredGlobals E (sc_scopeManager lastSourceCode) configuredGlobals\<rparr>;
                               configuredRules = Object_assign [] [cfg_rules config, JObj []]
                           in case runRules E
                                     \<lparr>rp_sourceCode = sourceCode,
                                      rp_configuredRules = configuredRules,
                                      rp_ruleMapper = ruleMap S,
                                      rp_parserName = parserName,
                                      rp_languageOptions = languageOptions,
                                      rp_settings = settings,
                                      rp_filename = no_filename options,
                                      rp_disableFixes = no_disableFixes options,
                                      rp_physicalFilename =
                                        (case providedOptions of
                                           Some po \<Rightarrow> vo_physicalFilename po | None \<Rightarrow> None)\<rparr> of
                                Inl err \<Rightarrow> Inl (annotate options err)
                              | Inr lintingProblems \<Rightarrow>
                                  Inr (E_applyDisableDirectives E
                                         \<lparr>dd_directives = [],
                                          dd_disableFixes = no_disableFixes options,
                                          dd_problems = sort_problems (lintingProblems @ []),
                                          dd_reportUnusedDisableDirectives =
                                            no_reportUnusedDisableDirectives options\<rparr>)))))"

definition verifyWithConfigArray ::
  "externals \<Rightarrow> slots \<Rightarrow> string + source_code \<Rightarrow> config_array option \<Rightarrow> verify_options option \<Rightarrow>
   exn + problem list" where
  "verifyWithConfigArray E S textOrSourceCode configArray options =
     (case configArray of
        None \<Rightarrow> Inl (new_TypeError ''Cannot read properties of undefined (reading 'env')'')
      | Some conf \<Rightarrow>
          if ca_baseConfig conf = JUndefined \<or> ca_baseConfig conf = JNull
          then Inl (new_TypeError
                      (''Cannot read properties of '' @ js_String (ca_baseConfig conf) @
                       '' (reading 'parserOptions')''))
          else
            (let wanted =
                   \<lparr>cfg_configNameOfNoInlineConfig = JStr [],
                    cfg_env = ca_env conf,
                    cfg_globals = JObj [],
                    cfg_linterOptions = JUndefined,
                    cfg_noInlineConfig = JUndefined,
                    cfg_parser = ParserUnset,
                    cfg_parserOptions = node_get (ca_baseConfig conf) ''parserOptions'',
                    cfg_reportUnusedDisableDirectives = JUndefined,
                    cfg_rules = node_get (ca_baseConfig conf) ''rules'',
                    cfg_settings = ca_settings conf\<rparr>
             in verifyWithoutProcessors E S textOrSourceCode (Some wanted) options))"

section \<open>The fix loop\<close>

text \<open>
  \<open>verifyAndFix\<close>: the \<open>do \<dots> while\<close> loop as a recursive function that counts the
  passes, with the variables of the method as its state.
\<close>

definition MAX_AUTOFIX_PASSES :: nat where
  "MAX_AUTOFIX_PASSES = 10"

record fix_state =
  fs_messages :: "problem list"
  fs_fixedResult :: fixed_result
  fs_fixed :: bool
  fs_passNumber :: nat
  fs_currentText :: string

function do_while ::
  "(string \<Rightarrow> exn + problem list) \<Rightarrow> (string \<Rightarrow> problem list \<Rightarrow> fixed_result) \<Rightarrow>
   bool \<Rightarrow> nat \<Rightarrow> string \<Rightarrow> exn + fix_state" where
  "do_while verify applyFixes fixed passNumber currentText =
     (case verify currentText of
        Inl e \<Rightarrow> Inl e
      | Inr messages \<Rightarrow>
          (let fixedResult = applyFixes currentText messages in
           if length messages = 1 \<and> p_fatal (messages ! 0)
           then Inr \<lparr>fs_messages = messages, fs_fixedResult = fixedResult, fs_fixed = fixed,
                     fs_passNumber = passNumber + 1, fs_currentText = currentText\<rparr>
           else if fr_fixed fixedResult \<and> passNumber + 1 < MAX_AUTOFIX_PASSES
           then do_while verify applyFixes (fixed \<or> fr_fixed fixedResult) (passNumber + 1)
                  (fr_output fixedResult)
           else Inr \<lparr>fs_messages = messages, fs_fixedResult = fixedResult,
                     fs_fixed = (fixed \<or> fr_fixed fixedResult),
                     fs_passNumber = passNumber + 1, fs_currentText = fr_output fixedResult\<rparr>))"
  by pat_completeness auto
termination
  by (relation "measure (\<lambda>(verify, applyFixes, fixed, passNumber, currentText).
        MAX_AUTOFIX_PASSES - passNumber)") auto

declare do_while.simps [simp del]

definition verifyAndFix ::
  "externals \<Rightarrow> slots \<Rightarrow> string \<Rightarrow> config_array option \<Rightarrow> verify_options option \<Rightarrow> exn + fixed_result" where
  "verifyAndFix E S text_arg config options =
     (let shouldFix =
            (case options of
               None \<Rightarrow> FixBool True
             | Some opts \<Rightarrow> (case vo_fix opts of None \<Rightarrow> FixBool True | Some f \<Rightarrow> f))
      in case do_while (\<lambda>currentText. verifyWithConfigArray E S (Inl currentText) config options)
                (\<lambda>currentText messages. E_applyFixes E currentText messages shouldFix)
                False 0 text_arg of
           Inl e \<Rightarrow> Inl e
         | Inr s \<Rightarrow>
             (case (if fr_fixed (fs_fixedResult s)
                    then (case verifyWithConfigArray E S (Inl (fs_currentText s)) config options of
                            Inl e \<Rightarrow> Inl e
                          | Inr messages \<Rightarrow> Inr ((fs_fixedResult s)\<lparr>fr_messages := messages\<rparr>))
                    else Inr (fs_fixedResult s)) of
                Inl e \<Rightarrow> Inl e
              | Inr fixedResult \<Rightarrow>
                  Inr (fixedResult\<lparr>fr_fixed := fs_fixed s, fr_output := fs_currentText s\<rparr>)))"

text \<open>
  A lone fatal Problem is what the loop stops at: exactly one Problem, with \<open>fatal\<close> set.
\<close>

definition lone_fatal :: "problem list \<Rightarrow> bool" where
  "lone_fatal messages = (length messages = 1 \<and> p_fatal (messages ! 0))"

lemma do_while_result:
  assumes "do_while V F fixed p t = Inr s" and "p < MAX_AUTOFIX_PASSES"
  shows "\<exists>n T M R.
           1 \<le> n \<and> p + n \<le> MAX_AUTOFIX_PASSES \<and> T 0 = t \<and>
           (\<forall>i<n. V (T i) = Inr (M i) \<and> R i = F (T i) (M i)) \<and>
           (\<forall>i. Suc i < n \<longrightarrow> \<not> lone_fatal (M i) \<and> fr_fixed (R i) \<and> T (Suc i) = fr_output (R i)) \<and>
           (lone_fatal (M (n - 1)) \<or> \<not> fr_fixed (R (n - 1)) \<or> p + n = MAX_AUTOFIX_PASSES) \<and>
           fs_passNumber s = p + n \<and>
           fs_messages s = M (n - 1) \<and>
           fs_fixedResult s = R (n - 1) \<and>
           fs_currentText s = (if lone_fatal (M (n - 1)) then T (n - 1) else fr_output (R (n - 1))) \<and>
           fs_fixed s = (fixed \<or> (\<exists>i<n. \<not> lone_fatal (M i) \<and> fr_fixed (R i)))"
  using assms
proof (induction V F fixed p t arbitrary: s rule: do_while.induct)
  case (1 verify applyFixes fixed passNumber currentText)
  from "1.prems"(1) obtain messages where v: "verify currentText = Inr messages"
    by (auto simp: do_while.simps [of verify applyFixes fixed passNumber currentText] split: sum.splits)
  define fixedResult where "fixedResult = applyFixes currentText messages"
  show ?case
  proof (cases "lone_fatal messages \<or> \<not> (fr_fixed fixedResult \<and> passNumber + 1 < MAX_AUTOFIX_PASSES)")
    case True
    let ?T = "\<lambda>i::nat. currentText" and ?M = "\<lambda>i::nat. messages" and ?R = "\<lambda>i::nat. fixedResult"
    from True "1.prems" v have
      "fs_passNumber s = passNumber + 1 \<and> fs_messages s = messages \<and> fs_fixedResult s = fixedResult \<and>
       fs_currentText s = (if lone_fatal messages then currentText else fr_output fixedResult) \<and>
       fs_fixed s = (fixed \<or> (\<not> lone_fatal messages \<and> fr_fixed fixedResult))"
      by (auto simp: do_while.simps [of verify applyFixes fixed passNumber currentText] Let_def
            lone_fatal_def fixedResult_def split: if_splits)
    moreover have "lone_fatal messages \<or> \<not> fr_fixed fixedResult \<or> passNumber + 1 = MAX_AUTOFIX_PASSES"
      using True "1.prems"(2) by auto
    ultimately show ?thesis
      using v "1.prems"(2)
      by (intro exI [of _ 1] exI [of _ ?T] exI [of _ ?M] exI [of _ ?R]) (auto simp: fixedResult_def)
  next
    case False
    then have nf: "\<not> lone_fatal messages" and fx: "fr_fixed fixedResult"
      and lt: "passNumber + 1 < MAX_AUTOFIX_PASSES" by auto
    have rec: "do_while verify applyFixes (fixed \<or> fr_fixed fixedResult) (passNumber + 1)
                 (fr_output fixedResult) = Inr s"
      using "1.prems"(1) v nf fx lt
      by (auto simp: do_while.simps [of verify applyFixes fixed passNumber currentText] Let_def
            lone_fatal_def fixedResult_def split: if_splits)
    have nf': "\<not> (length messages = 1 \<and> p_fatal (messages ! 0))" using nf by (simp add: lone_fatal_def)
    from "1.IH" [OF v fixedResult_def nf' _ rec lt] fx lt
    obtain n T M R where ih:
      "1 \<le> n" "passNumber + 1 + n \<le> MAX_AUTOFIX_PASSES" "T 0 = fr_output fixedResult"
      "\<forall>i<n. verify (T i) = Inr (M i) \<and> R i = applyFixes (T i) (M i)"
      "\<forall>i. Suc i < n \<longrightarrow> \<not> lone_fatal (M i) \<and> fr_fixed (R i) \<and> T (Suc i) = fr_output (R i)"
      "lone_fatal (M (n - 1)) \<or> \<not> fr_fixed (R (n - 1)) \<or> passNumber + 1 + n = MAX_AUTOFIX_PASSES"
      "fs_passNumber s = passNumber + 1 + n"
      "fs_messages s = M (n - 1)"
      "fs_fixedResult s = R (n - 1)"
      "fs_currentText s = (if lone_fatal (M (n - 1)) then T (n - 1) else fr_output (R (n - 1)))"
      "fs_fixed s = ((fixed \<or> fr_fixed fixedResult) \<or> (\<exists>i<n. \<not> lone_fatal (M i) \<and> fr_fixed (R i)))"
      by auto
    let ?T = "\<lambda>i. case i of 0 \<Rightarrow> currentText | Suc j \<Rightarrow> T j"
    let ?M = "\<lambda>i. case i of 0 \<Rightarrow> messages | Suc j \<Rightarrow> M j"
    let ?R = "\<lambda>i. case i of 0 \<Rightarrow> fixedResult | Suc j \<Rightarrow> R j"
    obtain m where n: "n = Suc m" using ih(1) by (cases n) auto
    have a: "\<forall>i<Suc n. verify (?T i) = Inr (?M i) \<and> ?R i = applyFixes (?T i) (?M i)"
      using ih(4) v by (auto simp: fixedResult_def split: nat.splits)
    have b: "\<forall>i. Suc i < Suc n \<longrightarrow> \<not> lone_fatal (?M i) \<and> fr_fixed (?R i) \<and> ?T (Suc i) = fr_output (?R i)"
      using ih(3,5) nf fx by (auto split: nat.splits)
    have c: "(\<exists>i<Suc n. \<not> lone_fatal (?M i) \<and> fr_fixed (?R i)) =
             (fr_fixed fixedResult \<or> (\<exists>i<n. \<not> lone_fatal (M i) \<and> fr_fixed (R i)))"
      using nf fx by (auto split: nat.splits simp: less_Suc_eq_0_disj)
    show ?thesis
      apply (intro exI [of _ "Suc n"] exI [of _ ?T] exI [of _ ?M] exI [of _ ?R])
      using ih(2,6-11) a b c n by simp
  qed
qed


section \<open>A small linter\<close>

text \<open>
  Collaborators for concrete runs: a parser that reads every character as an
  identifier and fails at an exclamation mark, event generators that emit the node type
  (with \<open>:exit\<close> when leaving), a translator that takes message, fix and suggestions
  from the descriptor, a directive step without directives, and a patcher that applies
  the first applicable fix, a fix being the whole new text.
\<close>

definition identifier_node :: "char \<Rightarrow> jsval" where
  "identifier_node c =
     JObj [(''type'', JStr ''Identifier''), (''name'', JStr [c]),
           (''loc'', JObj [(''start'', JObj [(''line'', JNum 1), (''column'', JNum 0)])])]"

definition program_node :: "string \<Rightarrow> jsval" where
  "program_node s =
     JObj [(''type'', JStr ''Program''), (''body'', JArr (map identifier_node s)),
           (''loc'', JObj [(''start'', JObj [(''line'', JNum 1), (''column'', JNum 0)])])]"

definition demo_parser :: parser where
  "demo_parser s languageOptions filePath =
     (if CHR ''!'' \<in> set s
      then Inl \<lparr>pe_message = ''Line 1: Unexpected token ! '', pe_lineNumber = 1, pe_column = 1\<rparr>
      else Inr \<lparr>sc_text = s, sc_ast = program_node s, sc_visitorKeys = None,
                sc_parserServices = JObj [], sc_scopeManager = JObj []\<rparr>)"

definition demo_translator :: "translator_metadata \<Rightarrow> jsval list \<Rightarrow> exn + problem" where
  "demo_translator M args =
     (case args of
        [] \<Rightarrow> Inl (new_TypeError ''context.report() called without a descriptor'')
      | descriptor # _ \<Rightarrow>
          Inr \<lparr>p_ruleId = Some (tm_ruleId M),
               p_fatal = False,
               p_severity = tm_severity M,
               p_message = js_String (node_get descriptor ''message''),
               p_line = 1,
               p_column = 1,
               p_endLine = None,
               p_endColumn = None,
               p_nodeType = JStr ''Identifier'',
               p_fix = (if tm_disableFixes M then JUndefined else node_get descriptor ''fix''),
               p_suggestions =
                 (if tm_disableFixes M then JUndefined else node_get descriptor ''suggest'')\<rparr>)"

definition demo_new_generator :: "string list \<Rightarrow> exn + jsval" where
  "demo_new_generator selectors = Inr JNull"

definition demo_enterNode :: "jsval \<Rightarrow> jsval \<Rightarrow> exn + (string \<times> jsval list) list \<times> jsval" where
  "demo_enterNode n g = Inr ([(node_type n, [n])], g)"

definition demo_leaveNode :: "jsval \<Rightarrow> jsval \<Rightarrow> exn + (string \<times> jsval list) list \<times> jsval" where
  "demo_leaveNode n g = Inr ([(node_type n @ '':exit'', [n])], g)"

definition demo_generator :: event_generator where
  "demo_generator =
     \<lparr>gen_new = demo_new_generator, gen_enterNode = demo_enterNode, gen_leaveNode = demo_leaveNode\<rparr>"

definition demo_shouldFix :: "fix_option \<Rightarrow> problem \<Rightarrow> bool" where
  "demo_shouldFix shouldFix p = (case shouldFix of FixBool b \<Rightarrow> b | FixPredicate f \<Rightarrow> f p)"

definition demo_applyFixes :: "string \<Rightarrow> problem list \<Rightarrow> fix_option \<Rightarrow> fixed_result" where
  "demo_applyFixes sourceText messages shouldFix =
     (case filter (\<lambda>p. truthy (p_fix p) \<and> demo_shouldFix shouldFix p) messages of
        [] \<Rightarrow> \<lparr>fr_fixed = False, fr_messages = messages, fr_output = sourceText\<rparr>
      | p # _ \<Rightarrow>
          \<lparr>fr_fixed = True,
           fr_messages = filter (\<lambda>p. \<not> (truthy (p_fix p) \<and> demo_shouldFix shouldFix p)) messages,
           fr_output = js_String (p_fix p)\<rparr>)"

definition demo_languageOptions :: "parser \<Rightarrow> config \<Rightarrow> language_options" where
  "demo_languageOptions p c = JObj [(''parserOptions'', js_or (cfg_parserOptions c) (JObj []))]"

definition demo_analyzeScope :: "jsval \<Rightarrow> language_options \<Rightarrow> jsval" where
  "demo_analyzeScope a l = JObj []"

definition demo_addDeclaredGlobals :: "jsval \<Rightarrow> jsval \<Rightarrow> jsval" where
  "demo_addDeclaredGlobals scopeManager configuredGlobals = scopeManager"

definition demo_externals :: externals where
  "demo_externals =
     \<lparr>E_evk = \<lparr>KEYS = demo_keys, getKeys = demo_getKeys\<rparr>,
      E_espree = demo_parser,
      E_createLanguageOptions = demo_languageOptions,
      E_analyzeScope = demo_analyzeScope,
      E_addDeclaredGlobals = demo_addDeclaredGlobals,
      E_createReportTranslator = demo_translator,
      E_NodeEventGenerator = demo_generator,
      E_CodePathAnalyzer = demo_generator,
      E_applyDisableDirectives = dd_problems,
      E_applyFixes = demo_applyFixes\<rparr>"

text \<open>
  Rules: \<open>a-to-b\<close> reports every identifier \<open>a\<close> with a fix that rewrites the first
  \<open>a\<close> of the text to \<open>b\<close>; \<open>swap\<close> reports every identifier with a fix that swaps
  \<open>a\<close> and \<open>b\<close> throughout, and so never comes to rest. \<open>a-to-b\<close> declares
  \<open>meta.fixable\<close>; \<open>unfixable\<close> is the same rule without it.
\<close>

fun first_a_to_b :: "string \<Rightarrow> string" where
  "first_a_to_b [] = []"
| "first_a_to_b (c # cs) = (if c = CHR ''a'' then CHR ''b'' # cs else c # first_a_to_b cs)"

definition swap_a_b :: "string \<Rightarrow> string" where
  "swap_a_b s = map (\<lambda>c. if c = CHR ''a'' then CHR ''b'' else if c = CHR ''b'' then CHR ''a'' else c) s"

definition returns :: "jsval list list \<Rightarrow> 'a \<Rightarrow> 'a call_result" where
  "returns rs v = \<lparr>reports = rs, outcome = Inr v\<rparr>"

definition a_to_b_listener :: "rule_context \<Rightarrow> listener" where
  "a_to_b_listener ctx info args =
     returns
       (if node_get (ti_node info) ''name'' = JStr ''a''
        then [[JObj [(''message'', JStr ''Unexpected a.''),
                     (''fix'', JStr (first_a_to_b (sc_text (ctx_sourceCode ctx))))]]]
        else [])
       ()"

definition a_to_b_create :: "rule_context \<Rightarrow> (string \<times> listener) list call_result" where
  "a_to_b_create ctx = returns [] [(''Identifier'', a_to_b_listener ctx)]"

definition a_to_b :: rule where
  "a_to_b = \<lparr>meta = JObj [(''fixable'', JStr ''code'')], create = a_to_b_create\<rparr>"

definition unfixable :: rule where
  "unfixable = \<lparr>meta = JObj [(''docs'', JObj [])], create = a_to_b_create\<rparr>"

definition swap_listener :: "rule_context \<Rightarrow> listener" where
  "swap_listener ctx info args =
     returns
       [[JObj [(''message'', JStr ''Swap.''), (''fix'', JStr (swap_a_b (sc_text (ctx_sourceCode ctx))))]]]
       ()"

definition swap_create :: "rule_context \<Rightarrow> (string \<times> listener) list call_result" where
  "swap_create ctx = returns [] [(''Program:exit'', swap_listener ctx)]"

definition swap :: rule where
  "swap = \<lparr>meta = JObj [(''fixable'', JStr ''whitespace'')], create = swap_create\<rparr>"

definition throws :: "rule_context \<Rightarrow> (string \<times> listener) list call_result" where
  "throws ctx = \<lparr>reports = [], outcome = Inl (new_Error ''This rule must not be loaded.'')\<rparr>"

definition never :: rule where
  "never = \<lparr>meta = JUndefined, create = throws\<rparr>"

definition demo_parsers :: "string \<Rightarrow> parser option" where
  "demo_parsers name = (if name = ''espree'' then Some demo_parser else None)"

definition demo_rules :: "string \<Rightarrow> rule option" where
  "demo_rules ruleId =
     (if ruleId = ''a-to-b'' then Some a_to_b
      else if ruleId = ''unfixable'' then Some unfixable
      else if ruleId = ''swap'' then Some swap
      else if ruleId = ''never'' then Some never
      else None)"

definition demo_slots :: slots where
  "demo_slots = \<lparr>parserMap = demo_parsers, ruleMap = demo_rules\<rparr>"

definition config_with :: "(string \<times> jsval) list \<Rightarrow> config_array" where
  "config_with rules =
     \<lparr>ca_env = JObj [], ca_baseConfig = JObj [(''rules'', JObj rules)], ca_settings = JObj []\<rparr>"

definition no_options :: verify_options where
  "no_options =
     \<lparr>vo_allowInlineConfig = JUndefined, vo_disableFixes = JUndefined, vo_filename = None,
      vo_reportUnusedDisableDirectives = JUndefined, vo_physicalFilename = None, vo_fix = None\<rparr>"


section \<open>Properties of the fix loop\<close>

text \<open>
  The loop of \<open>verifyAndFix\<close> in its parts: the fix option that is handed to the patcher,
  one verification, one patch round, and the loop itself.
\<close>

definition shouldFix_of :: "verify_options option \<Rightarrow> fix_option" where
  "shouldFix_of options =
     (case options of
        None \<Rightarrow> FixBool True
      | Some opts \<Rightarrow> (case vo_fix opts of None \<Rightarrow> FixBool True | Some f \<Rightarrow> f))"

definition verify_pass ::
  "externals \<Rightarrow> slots \<Rightarrow> config_array option \<Rightarrow> verify_options option \<Rightarrow> string \<Rightarrow> exn + problem list" where
  "verify_pass E S config options currentText =
     verifyWithConfigArray E S (Inl currentText) config options"

definition patch_pass :: "externals \<Rightarrow> verify_options option \<Rightarrow> string \<Rightarrow> problem list \<Rightarrow> fixed_result" where
  "patch_pass E options currentText messages =
     E_applyFixes E currentText messages (shouldFix_of options)"

definition fix_loop ::
  "externals \<Rightarrow> slots \<Rightarrow> string \<Rightarrow> config_array option \<Rightarrow> verify_options option \<Rightarrow> exn + fix_state" where
  "fix_loop E S text_arg config options =
     do_while (verify_pass E S config options) (patch_pass E options) False 0 text_arg"

lemma verifyAndFix_eq:
  "verifyAndFix E S text_arg config options =
     (case fix_loop E S text_arg config options of
        Inl e \<Rightarrow> Inl e
      | Inr s \<Rightarrow>
          (if fr_fixed (fs_fixedResult s)
           then (case verify_pass E S config options (fs_currentText s) of
                   Inl e \<Rightarrow> Inl e
                 | Inr messages \<Rightarrow>
                     Inr \<lparr>fr_fixed = fs_fixed s, fr_messages = messages, fr_output = fs_currentText s\<rparr>)
           else Inr \<lparr>fr_fixed = fs_fixed s, fr_messages = fr_messages (fs_fixedResult s),
                     fr_output = fs_currentText s\<rparr>))"
proof -
  have v: "(\<lambda>currentText. verifyWithConfigArray E S (Inl currentText) config options) =
           verify_pass E S config options"
    by (simp add: verify_pass_def fun_eq_iff)
  have f: "(\<lambda>currentText messages. E_applyFixes E currentText messages (shouldFix_of options)) =
           patch_pass E options"
    by (simp add: patch_pass_def fun_eq_iff)
  show ?thesis
    unfolding verifyAndFix_def fix_loop_def shouldFix_of_def [symmetric] Let_def v f
    by (auto split: sum.splits simp: verify_pass_def)
qed

text \<open>
  \<^bold>\<open>C1.\<close> Whenever \<open>verifyAndFix\<close> returns a result, there are \<open>n\<close> passes, between 1
  and 10, over the texts \<open>T 0 = text, T 1, \<dots>\<close> with Problems \<open>M i\<close> and patch results
  \<open>R i\<close>; every pass but the last was followed by another because its patch round
  reported \<open>fixed\<close> (and it did not stop at a lone fatal Problem), and the last one
  stopped at a lone fatal Problem, or reported no fix, or was the tenth; the returned
  \<open>output\<close> is the text after the last patch round that was applied (a pass that stops
  at a lone fatal Problem applies none); the returned \<open>fixed\<close> says whether some pass
  applied a fix; and when the last patch round reported a fix, the returned
  \<open>messages\<close> are the Problems of verifying the returned \<open>output\<close>.
\<close>

theorem verifyAndFix_passes:
  assumes "verifyAndFix E S text_arg config options = Inr r"
  shows "\<exists>n T M R.
           1 \<le> n \<and> n \<le> MAX_AUTOFIX_PASSES \<and> T 0 = text_arg \<and>
           (\<forall>i<n. verify_pass E S config options (T i) = Inr (M i) \<and>
                  R i = patch_pass E options (T i) (M i)) \<and>
           (\<forall>i. Suc i < n \<longrightarrow>
                  \<not> lone_fatal (M i) \<and> fr_fixed (R i) \<and> T (Suc i) = fr_output (R i)) \<and>
           (lone_fatal (M (n - 1)) \<or> \<not> fr_fixed (R (n - 1)) \<or> n = MAX_AUTOFIX_PASSES) \<and>
           fr_output r = (if lone_fatal (M (n - 1)) then T (n - 1) else fr_output (R (n - 1))) \<and>
           fr_fixed r = (\<exists>i<n. \<not> lone_fatal (M i) \<and> fr_fixed (R i)) \<and>
           (if fr_fixed (R (n - 1))
            then verify_pass E S config options (fr_output r) = Inr (fr_messages r)
            else fr_messages r = fr_messages (R (n - 1)))"
proof -
  from assms obtain s where s: "fix_loop E S text_arg config options = Inr s"
    by (auto simp: verifyAndFix_eq split: sum.splits)
  have "(0::nat) < MAX_AUTOFIX_PASSES" by (simp add: MAX_AUTOFIX_PASSES_def)
  from do_while_result [OF s [unfolded fix_loop_def] this]
  obtain n T M R where p:
    "1 \<le> n" "0 + n \<le> MAX_AUTOFIX_PASSES" "T 0 = text_arg"
    "\<forall>i<n. verify_pass E S config options (T i) = Inr (M i) \<and> R i = patch_pass E options (T i) (M i)"
    "\<forall>i. Suc i < n \<longrightarrow> \<not> lone_fatal (M i) \<and> fr_fixed (R i) \<and> T (Suc i) = fr_output (R i)"
    "lone_fatal (M (n - 1)) \<or> \<not> fr_fixed (R (n - 1)) \<or> 0 + n = MAX_AUTOFIX_PASSES"
    "fs_passNumber s = 0 + n"
    "fs_messages s = M (n - 1)"
    "fs_fixedResult s = R (n - 1)"
    "fs_currentText s = (if lone_fatal (M (n - 1)) then T (n - 1) else fr_output (R (n - 1)))"
    "fs_fixed s = (False \<or> (\<exists>i<n. \<not> lone_fatal (M i) \<and> fr_fixed (R i)))"
    by blast
  have out: "fr_output r = fs_currentText s" and fx: "fr_fixed r = fs_fixed s"
    using assms s by (auto simp: verifyAndFix_eq split: sum.splits if_splits)
  have msgs: "if fr_fixed (R (n - 1))
     then verify_pass E S config options (fr_output r) = Inr (fr_messages r)
     else fr_messages r = fr_messages (R (n - 1))"
    using assms s p(9) by (auto simp: verifyAndFix_eq split: sum.splits if_splits)
  show ?thesis
    apply (intro exI [of _ n] exI [of _ T] exI [of _ M] exI [of _ R])
    using p(1-6) p(10,11) out fx msgs by simp
qed

text \<open>If no verification fails, \<open>verifyAndFix\<close> returns a result.\<close>

lemma do_while_Inl:
  "do_while V F fixed p t = Inl e \<Longrightarrow> \<exists>t'. V t' = Inl e"
proof (induction V F fixed p t rule: do_while.induct)
  case (1 verify applyFixes fixed passNumber currentText)
  show ?case
  proof (cases "verify currentText")
    case (Inl e')
    then show ?thesis using "1.prems"
      by (auto simp: do_while.simps [of verify applyFixes fixed passNumber currentText])
  next
    case (Inr messages)
    then show ?thesis using "1.prems" "1.IH" [OF Inr refl]
      by (auto simp: do_while.simps [of verify applyFixes fixed passNumber currentText] Let_def
            split: if_splits)
  qed
qed

lemma verifyAndFix_returns:
  assumes "\<And>t. \<exists>messages. verify_pass E S config options t = Inr messages"
  shows "\<exists>r. verifyAndFix E S text_arg config options = Inr r"
proof (cases "fix_loop E S text_arg config options")
  case (Inl e)
  then obtain t' where "verify_pass E S config options t' = Inl e"
    using do_while_Inl [of "verify_pass E S config options" "patch_pass E options" False 0 text_arg e]
    by (auto simp: fix_loop_def)
  then show ?thesis using assms [of t'] by simp
next
  case (Inr s)
  then show ?thesis using assms [of "fs_currentText s"]
    by (auto simp: verifyAndFix_eq)
qed

lemma demo_fix_two_a:
  "verifyAndFix demo_externals demo_slots ''aXa'' (Some (config_with [(''a-to-b'', JStr ''error'')]))
     (Some no_options) = Inr \<lparr>fr_fixed = True, fr_messages = [], fr_output = ''bXb''\<rparr>"
  by code_simp

theorem verifyAndFix_passes_witness:
  "verifyAndFix demo_externals demo_slots ''aXa'' (Some (config_with [(''a-to-b'', JStr ''error'')]))
     (Some no_options) = Inr \<lparr>fr_fixed = True, fr_messages = [], fr_output = ''bXb''\<rparr> \<and>
   (\<exists>n T M R.
      1 \<le> n \<and> n \<le> MAX_AUTOFIX_PASSES \<and> T 0 = ''aXa'' \<and>
      (\<forall>i<n. verify_pass demo_externals demo_slots (Some (config_with [(''a-to-b'', JStr ''error'')]))
                (Some no_options) (T i) = Inr (M i) \<and>
             R i = patch_pass demo_externals (Some no_options) (T i) (M i)) \<and>
      (\<forall>i. Suc i < n \<longrightarrow>
             \<not> lone_fatal (M i) \<and> fr_fixed (R i) \<and> T (Suc i) = fr_output (R i)) \<and>
      (lone_fatal (M (n - 1)) \<or> \<not> fr_fixed (R (n - 1)) \<or> n = MAX_AUTOFIX_PASSES) \<and>
      fr_output \<lparr>fr_fixed = True, fr_messages = [], fr_output = ''bXb''\<rparr> =
        (if lone_fatal (M (n - 1)) then T (n - 1) else fr_output (R (n - 1))) \<and>
      fr_fixed \<lparr>fr_fixed = True, fr_messages = [], fr_output = ''bXb''\<rparr> =
        (\<exists>i<n. \<not> lone_fatal (M i) \<and> fr_fixed (R i)) \<and>
      (if fr_fixed (R (n - 1))
       then verify_pass demo_externals demo_slots (Some (config_with [(''a-to-b'', JStr ''error'')]))
              (Some no_options) (fr_output \<lparr>fr_fixed = True, fr_messages = [], fr_output = ''bXb''\<rparr>) =
            Inr (fr_messages \<lparr>fr_fixed = True, fr_messages = [], fr_output = ''bXb''\<rparr>)
       else fr_messages \<lparr>fr_fixed = True, fr_messages = [], fr_output = ''bXb''\<rparr> =
            fr_messages (R (n - 1))))"
proof (rule conjI)
  show "verifyAndFix demo_externals demo_slots ''aXa'' (Some (config_with [(''a-to-b'', JStr ''error'')]))
     (Some no_options) = Inr \<lparr>fr_fixed = True, fr_messages = [], fr_output = ''bXb''\<rparr>"
    by (rule demo_fix_two_a)
next
  show "\<exists>n T M R.
      1 \<le> n \<and> n \<le> MAX_AUTOFIX_PASSES \<and> T 0 = ''aXa'' \<and>
      (\<forall>i<n. verify_pass demo_externals demo_slots (Some (config_with [(''a-to-b'', JStr ''error'')]))
                (Some no_options) (T i) = Inr (M i) \<and>
             R i = patch_pass demo_externals (Some no_options) (T i) (M i)) \<and>
      (\<forall>i. Suc i < n \<longrightarrow>
             \<not> lone_fatal (M i) \<and> fr_fixed (R i) \<and> T (Suc i) = fr_output (R i)) \<and>
      (lone_fatal (M (n - 1)) \<or> \<not> fr_fixed (R (n - 1)) \<or> n = MAX_AUTOFIX_PASSES) \<and>
      fr_output \<lparr>fr_fixed = True, fr_messages = [], fr_output = ''bXb''\<rparr> =
        (if lone_fatal (M (n - 1)) then T (n - 1) else fr_output (R (n - 1))) \<and>
      fr_fixed \<lparr>fr_fixed = True, fr_messages = [], fr_output = ''bXb''\<rparr> =
        (\<exists>i<n. \<not> lone_fatal (M i) \<and> fr_fixed (R i)) \<and>
      (if fr_fixed (R (n - 1))
       then verify_pass demo_externals demo_slots (Some (config_with [(''a-to-b'', JStr ''error'')]))
              (Some no_options) (fr_output \<lparr>fr_fixed = True, fr_messages = [], fr_output = ''bXb''\<rparr>) =
            Inr (fr_messages \<lparr>fr_fixed = True, fr_messages = [], fr_output = ''bXb''\<rparr>)
       else fr_messages \<lparr>fr_fixed = True, fr_messages = [], fr_output = ''bXb''\<rparr> =
            fr_messages (R (n - 1)))"
    by (rule verifyAndFix_passes [OF demo_fix_two_a])
qed

text \<open>A text that never comes to rest is given up after the tenth pass.\<close>

lemma demo_swap_passes:
  "map_sum id fs_passNumber
     (fix_loop demo_externals demo_slots ''a'' (Some (config_with [(''swap'', JNum 1)])) (Some no_options)) =
   Inr 10"
  by code_simp

text \<open>
  \<^bold>\<open>C2.\<close> When the first verification of a text yields exactly one Problem and it is
  fatal, the loop makes that one pass only, and \<open>verifyAndFix\<close> returns that Problem,
  the input text as \<open>output\<close> and \<open>fixed = false\<close>. The Problems come back through the
  patcher, which is not among the sources: it is taken to hand the list it was given
  back when it applies nothing.
\<close>

theorem verifyAndFix_lone_fatal:
  assumes "verify_pass E S config options text_arg = Inr [p]"
    and "p_fatal p"
    and "\<not> fr_fixed (patch_pass E options text_arg [p]) \<longrightarrow>
         fr_messages (patch_pass E options text_arg [p]) = [p]"
  shows "verifyAndFix E S text_arg config options =
           Inr \<lparr>fr_fixed = False, fr_messages = [p], fr_output = text_arg\<rparr> \<and>
         map_sum id fs_passNumber (fix_loop E S text_arg config options) = Inr 1"
proof -
  have loop: "fix_loop E S text_arg config options =
      Inr \<lparr>fs_messages = [p], fs_fixedResult = patch_pass E options text_arg [p], fs_fixed = False,
           fs_passNumber = 1, fs_currentText = text_arg\<rparr>"
    using assms(1,2)
    by (simp add: fix_loop_def
          do_while.simps [of "verify_pass E S config options" "patch_pass E options" False 0 text_arg])
  show ?thesis using assms by (auto simp: verifyAndFix_eq loop)
qed

text \<open>A text the parser rejects is verified to one fatal Problem.\<close>

lemma parse_failure_lone_fatal:
  assumes "E_espree E text_arg (E_createLanguageOptions E (E_espree E) wanted)
             (no_filename normalized) = Inl ex"
    and "normalizeVerifyOptions (Some po) wanted = Inr normalized"
    and "cfg_parser wanted = ParserUnset"
  shows "\<exists>p. verifyWithoutProcessors E S (Inl text_arg) (Some wanted) (Some po) = Inr [p] \<and> p_fatal p"
  using assms by (simp add: verifyWithoutProcessors_def Let_def parse_def)

lemma demo_parse_failure:
  "verify_pass demo_externals demo_slots (Some (config_with [(''a-to-b'', JStr ''error'')]))
     (Some no_options) ''a!'' =
   Inr [\<lparr>p_ruleId = None, p_fatal = True, p_severity = JNum 2,
         p_message = ''Parsing error: Unexpected token !'', p_line = 1, p_column = 1,
         p_endLine = None, p_endColumn = None, p_nodeType = JUndefined, p_fix = JUndefined,
         p_suggestions = JUndefined\<rparr>]"
  by code_simp

lemma demo_parse_failure_patch:
  "patch_pass demo_externals (Some no_options) ''a!''
     [\<lparr>p_ruleId = None, p_fatal = True, p_severity = JNum 2,
       p_message = ''Parsing error: Unexpected token !'', p_line = 1, p_column = 1,
       p_endLine = None, p_endColumn = None, p_nodeType = JUndefined, p_fix = JUndefined,
       p_suggestions = JUndefined\<rparr>] =
   \<lparr>fr_fixed = False,
    fr_messages =
      [\<lparr>p_ruleId = None, p_fatal = True, p_severity = JNum 2,
        p_message = ''Parsing error: Unexpected token !'', p_line = 1, p_column = 1,
        p_endLine = None, p_endColumn = None, p_nodeType = JUndefined, p_fix = JUndefined,
        p_suggestions = JUndefined\<rparr>],
    fr_output = ''a!''\<rparr>"
  by code_simp

theorem verifyAndFix_lone_fatal_witness:
  "verifyAndFix demo_externals demo_slots ''a!'' (Some (config_with [(''a-to-b'', JStr ''error'')]))
     (Some no_options) =
   Inr \<lparr>fr_fixed = False,
        fr_messages =
          [\<lparr>p_ruleId = None, p_fatal = True, p_severity = JNum 2,
            p_message = ''Parsing error: Unexpected token !'', p_line = 1, p_column = 1,
            p_endLine = None, p_endColumn = None, p_nodeType = JUndefined, p_fix = JUndefined,
            p_suggestions = JUndefined\<rparr>],
        fr_output = ''a!''\<rparr> \<and>
   map_sum id fs_passNumber
     (fix_loop demo_externals demo_slots ''a!'' (Some (config_with [(''a-to-b'', JStr ''error'')]))
        (Some no_options)) = Inr 1"
  using verifyAndFix_lone_fatal [OF demo_parse_failure] demo_parse_failure_patch by simp

text \<open>
  \<^bold>\<open>C10.\<close> The claim: with the options argument omitted, \<open>verifyAndFix\<close> behaves as
  with \<open>fix: true\<close>. The default \<open>options?.fix ?? true\<close> is computed, but the same
  \<open>undefined\<close> is then handed to the verification pass, whose option normalisation
  reads \<open>providedOptions.allowInlineConfig\<close>: every call without options ends in a
  \<open>TypeError\<close> before anything is verified or patched.
\<close>

theorem verifyAndFix_options_omitted:
  "\<exists>e. verifyAndFix E S text_arg config None = Inl e \<and> exn_name e = ''TypeError''"
proof -
  have "\<exists>e. verify_pass E S config None text_arg = Inl e \<and> exn_name e = ''TypeError''"
    by (auto simp: verify_pass_def verifyWithConfigArray_def verifyWithoutProcessors_def
          normalizeVerifyOptions_def new_TypeError_def Let_def split: option.splits)
  then show ?thesis
    by (auto simp: verifyAndFix_eq fix_loop_def
          do_while.simps [of "verify_pass E S config None" "patch_pass E None" False 0 text_arg])
qed

text \<open>
  With an options object, an absent \<open>fix\<close> is \<open>fix: true\<close>: the verification pass does
  not read the field, and the patcher is handed \<open>true\<close>.
\<close>

lemma normalizeVerifyOptions_fix:
  "normalizeVerifyOptions (Some (po\<lparr>vo_fix := f\<rparr>)) c = normalizeVerifyOptions (Some po) c"
  by (simp add: normalizeVerifyOptions_def Let_def)

lemma verifyWithoutProcessors_fix:
  "verifyWithoutProcessors E S x c (Some (po\<lparr>vo_fix := f\<rparr>)) =
   verifyWithoutProcessors E S x c (Some po)"
  by (simp add: verifyWithoutProcessors_def normalizeVerifyOptions_fix Let_def
        cong: sum.case_cong option.case_cong prod.case_cong config_parser.case_cong)

lemma verify_pass_fix:
  "verify_pass E S config (Some (po\<lparr>vo_fix := f\<rparr>)) = verify_pass E S config (Some po)"
  by (simp add: fun_eq_iff verify_pass_def verifyWithConfigArray_def verifyWithoutProcessors_fix
        Let_def cong: option.case_cong if_cong)

lemma verifyAndFix_fix_absent:
  "verifyAndFix E S text_arg config (Some (po\<lparr>vo_fix := None\<rparr>)) =
   verifyAndFix E S text_arg config (Some (po\<lparr>vo_fix := Some (FixBool True)\<rparr>))"
proof -
  have "patch_pass E (Some (po\<lparr>vo_fix := None\<rparr>)) = patch_pass E (Some (po\<lparr>vo_fix := Some (FixBool True)\<rparr>))"
    by (simp add: fun_eq_iff patch_pass_def shouldFix_of_def)
  then show ?thesis
    by (simp add: verifyAndFix_eq fix_loop_def verify_pass_fix cong: sum.case_cong if_cong)
qed


section \<open>Properties of a verification pass\<close>

definition config_with_parser :: "string \<Rightarrow> config" where
  "config_with_parser name = empty_config\<lparr>cfg_parser := ParserName name\<rparr>"

lemma normalizeVerifyOptions_Some:
  "\<exists>options. normalizeVerifyOptions (Some po) config = Inr options"
  by (simp add: normalizeVerifyOptions_def Let_def)

text \<open>
  \<^bold>\<open>C4.\<close> The claim says that the Problem for an unknown parser name does not have
  \<open>fatal\<close> set. The code sets it: with the parser name \<open>foo\<close>, which is not registered,
  the one Problem returned has \<open>fatal: true\<close>.
\<close>

theorem unknown_parser_is_fatal:
  "map_sum exn_message (map p_fatal)
     (verifyWithoutProcessors demo_externals demo_slots (Inl ''a'')
        (Some (config_with_parser ''foo'')) (Some no_options)) = Inr [True]"
  by code_simp

text \<open>
  \<^bold>\<open>C4, amended.\<close> When the configured parser is a name without a registered parser,
  and an options object is given, the verification returns exactly one Problem, whatever
  the text, the rules and the collaborators are (so neither parsing nor dispatch can
  have contributed or failed): message \<open>Configured parser '<name>' was not found.\<close>,
  severity 2, no rule id, line 0, column 0, and \<open>fatal\<close> set.
\<close>

theorem unknown_parser_name:
  assumes "cfg_parser config = ParserName name" and "parserMap S name = None"
  shows "verifyWithoutProcessors E S textOrSourceCode (Some config) (Some po) =
         Inr [\<lparr>p_ruleId = None,
               p_fatal = True,
               p_severity = JNum 2,
               p_message = ''Configured parser '' @ [CHR 0x27] @ name @ [CHR 0x27] @ '' was not found.'',
               p_line = 0,
               p_column = 0,
               p_endLine = None,
               p_endColumn = None,
               p_nodeType = JUndefined,
               p_fix = JUndefined,
               p_suggestions = JUndefined\<rparr>]"
proof -
  obtain options where "normalizeVerifyOptions (Some po) config = Inr options"
    using normalizeVerifyOptions_Some by blast
  then show ?thesis
    using assms by (simp add: verifyWithoutProcessors_def Let_def parser_not_found_def quoted_def)
qed

theorem unknown_parser_name_witness:
  "cfg_parser (config_with_parser ''foo'') = ParserName ''foo'' \<and>
   parserMap demo_slots ''foo'' = None \<and>
   verifyWithoutProcessors demo_externals demo_slots (Inl ''a'')
     (Some (config_with_parser ''foo'')) (Some no_options) =
   Inr [\<lparr>p_ruleId = None,
         p_fatal = True,
         p_severity = JNum 2,
         p_message = ''Configured parser 'foo' was not found.'',
         p_line = 0,
         p_column = 0,
         p_endLine = None,
         p_endColumn = None,
         p_nodeType = JUndefined,
         p_fix = JUndefined,
         p_suggestions = JUndefined\<rparr>]"
proof -
  have c: "cfg_parser (config_with_parser ''foo'') = ParserName ''foo''"
    by (simp add: config_with_parser_def)
  have m: "parserMap demo_slots ''foo'' = None"
    by (simp add: demo_slots_def demo_parsers_def)
  show ?thesis
    using unknown_parser_name [OF c m, of demo_externals "Inl ''a''" no_options] c m by simp
qed


section \<open>Properties of a report\<close>

lemma node_get_truthy: "node_get x k \<noteq> JUndefined \<Longrightarrow> truthy x"
  by (cases x) (simp_all add: node_get_def)

text \<open>
  One \<open>report\<close> call. Let the translator turn the arguments of the call into a Problem.
  If the Problem has a \<open>fix\<close> and the rule's \<open>meta.fixable\<close> is absent (or otherwise
  falsy), the call throws the error about \<open>meta.fixable\<close> and adds no Problem. If the
  Problem has \<open>suggestions\<close> and \<open>meta.hasSuggestions\<close> is not \<open>true\<close>, the call throws as
  well, whatever \<open>meta.docs.suggestion\<close> is; when that deprecated flag is declared (and the
  fix check has passed) the error is the one that says the flag is ignored. If the
  Problem has a \<open>fix\<close>, \<open>meta.fixable\<close> is \<open>"code"\<close> and the suggestions, if any, are
  declared, the call adds the Problem, with its fix, to the Problems of the pass.
\<close>

lemma report_checks_meta:
  assumes "E_createReportTranslator E M args = Inr problem"
  shows "(truthy (p_fix problem) \<and> \<not> truthy (node_get (meta rule) ''fixable'') \<longrightarrow>
            report E M rule args lintingProblems = Inl (new_Error FIXABLE_MESSAGE)) \<and>
         (truthy (p_suggestions problem) \<and> node_get (meta rule) ''hasSuggestions'' \<noteq> JBool True \<longrightarrow>
            isl (report E M rule args lintingProblems)) \<and>
         (truthy (p_suggestions problem) \<and> node_get (meta rule) ''hasSuggestions'' \<noteq> JBool True \<and>
          node_get (node_get (meta rule) ''docs'') ''suggestion'' \<noteq> JUndefined \<and>
          \<not> truthy (p_fix problem) \<longrightarrow>
            report E M rule args lintingProblems = Inl (new_Error SUGGESTION_FLAG_MESSAGE)) \<and>
         (truthy (p_fix problem) \<and> node_get (meta rule) ''fixable'' = JStr ''code'' \<and>
          (truthy (p_suggestions problem) \<longrightarrow> node_get (meta rule) ''hasSuggestions'' = JBool True) \<longrightarrow>
            report E M rule args lintingProblems = Inr (lintingProblems @ [problem]) \<and>
            p_fix (last (lintingProblems @ [problem])) = p_fix problem)"
proof -
  have docs: "truthy (meta rule) \<and> truthy (node_get (meta rule) ''docs'')"
    if "node_get (node_get (meta rule) ''docs'') ''suggestion'' \<noteq> JUndefined"
  proof -
    have d: "truthy (node_get (meta rule) ''docs'')"
      using that by (rule node_get_truthy)
    then have "node_get (meta rule) ''docs'' \<noteq> JUndefined" by auto
    then have "truthy (meta rule)" by (rule node_get_truthy)
    with d show ?thesis by simp
  qed
  have sugg: "truthy (meta rule)" if "node_get (meta rule) ''hasSuggestions'' = JBool True"
    using node_get_truthy [of "meta rule" "''hasSuggestions''"] that by simp
  have a: "report E M rule args lintingProblems = Inl (new_Error FIXABLE_MESSAGE)"
    if "truthy (p_fix problem)" "\<not> truthy (node_get (meta rule) ''fixable'')"
    using assms that by (simp add: report_def)
  have b: "isl (report E M rule args lintingProblems)"
    if "truthy (p_suggestions problem)" "node_get (meta rule) ''hasSuggestions'' \<noteq> JBool True"
    using assms that by (simp add: report_def)
  have c: "report E M rule args lintingProblems = Inl (new_Error SUGGESTION_FLAG_MESSAGE)"
    if "truthy (p_suggestions problem)" "node_get (meta rule) ''hasSuggestions'' \<noteq> JBool True"
      "node_get (node_get (meta rule) ''docs'') ''suggestion'' \<noteq> JUndefined"
      "\<not> truthy (p_fix problem)"
    using assms that docs [OF that(3)] by (simp add: report_def)
  have d: "report E M rule args lintingProblems = Inr (lintingProblems @ [problem])"
    if "truthy (p_fix problem)" "node_get (meta rule) ''fixable'' = JStr ''code''"
      "truthy (p_suggestions problem) \<longrightarrow> node_get (meta rule) ''hasSuggestions'' = JBool True"
  proof (cases "truthy (p_suggestions problem)")
    case True
    with that(3) have "truthy (meta rule)" "node_get (meta rule) ''hasSuggestions'' = JBool True"
      using sugg by simp_all
    then show ?thesis using assms that(2) by (simp add: report_def)
  next
    case False
    then show ?thesis using assms that(2) by (simp add: report_def)
  qed
  show ?thesis
    using a b c d by simp
qed

text \<open>
  An error of a \<open>report\<close> call is the error of the rule code that made the call, after the
  reports before it, and so of the listener factory and of the listener: the error
  handlers around them add to the error and throw it again.
\<close>

lemma run_reports_fails:
  assumes "run_reports E M rule before ps = Inr ps'" and "report E M rule args ps' = Inl e"
  shows "run_reports E M rule (before @ args # rest) ps = Inl e"
  using assms by (induction before arbitrary: ps) (simp_all split: sum.splits)

lemma run_call_fails:
  "run_reports E M rule (reports c) ps = Inl e \<Longrightarrow> run_call E M rule c ps = Inl e"
  by (simp add: run_call_def)

lemma createRuleListeners_fails:
  "run_call E M rule (create rule ctx) ps = Inl e \<Longrightarrow> isl (createRuleListeners E M rule ctx ps)"
  by (simp add: createRuleListeners_def)

lemma ruleErrorHandler_fails:
  "run_call E (h_metadata h) (h_rule h) (h_listener h info args) ps = Inl e \<Longrightarrow>
   ruleErrorHandler E h info args ps = Inl (e\<lparr>exn_ruleId := Some (tm_ruleId (h_metadata h))\<rparr>)"
  by (simp add: ruleErrorHandler_def)

text \<open>
  Report calls for the concrete runs: a descriptor with a fix, one with a suggestion, and
  a rule that declares only the deprecated \<open>meta.docs.suggestion\<close>.
\<close>

definition demo_metadata :: "string \<Rightarrow> translator_metadata" where
  "demo_metadata ruleId =
     \<lparr>tm_ruleId = ruleId, tm_severity = JNum 2,
      tm_sourceCode = \<lparr>sc_text = ''a'', sc_ast = program_node ''a'', sc_visitorKeys = None,
                        sc_parserServices = JObj [], sc_scopeManager = JObj []\<rparr>,
      tm_messageIds = JUndefined, tm_disableFixes = False\<rparr>"

definition fix_descriptor :: jsval where
  "fix_descriptor = JObj [(''message'', JStr ''Unexpected a.''), (''fix'', JStr ''b'')]"

definition suggest_descriptor :: jsval where
  "suggest_descriptor =
     JObj [(''message'', JStr ''Unexpected a.''),
           (''suggest'', JArr [JObj [(''desc'', JStr ''Use b.''), (''fix'', JStr ''b'')]])]"

definition reported :: "string \<Rightarrow> jsval \<Rightarrow> jsval \<Rightarrow> problem" where
  "reported ruleId fix_value suggestions =
     \<lparr>p_ruleId = Some ruleId, p_fatal = False, p_severity = JNum 2,
      p_message = ''Unexpected a.'', p_line = 1, p_column = 1, p_endLine = None,
      p_endColumn = None, p_nodeType = JStr ''Identifier'', p_fix = fix_value,
      p_suggestions = suggestions\<rparr>"

definition deprecated_flag :: rule where
  "deprecated_flag =
     \<lparr>meta = JObj [(''docs'', JObj [(''suggestion'', JBool True)])], create = a_to_b_create\<rparr>"

lemma demo_report_fix:
  "E_createReportTranslator demo_externals (demo_metadata r) [fix_descriptor] =
   Inr (reported r (JStr ''b'') JUndefined)"
  by (simp add: demo_externals_def demo_translator_def demo_metadata_def fix_descriptor_def
        reported_def node_get_def get_prop_def object_prototype_get_def
        object_prototype_methods_def)

lemma demo_report_suggest:
  "E_createReportTranslator demo_externals (demo_metadata r) [suggest_descriptor] =
   Inr (reported r JUndefined (JArr [JObj [(''desc'', JStr ''Use b.''), (''fix'', JStr ''b'')]]))"
  by (simp add: demo_externals_def demo_translator_def demo_metadata_def suggest_descriptor_def
        reported_def node_get_def get_prop_def object_prototype_get_def
        object_prototype_methods_def)

lemma demo_meta:
  "\<not> truthy (node_get (meta unfixable) ''fixable'')"
  "node_get (meta deprecated_flag) ''hasSuggestions'' \<noteq> JBool True"
  "node_get (node_get (meta deprecated_flag) ''docs'') ''suggestion'' \<noteq> JUndefined"
  "node_get (meta a_to_b) ''fixable'' = JStr ''code''"
  by (simp_all add: unfixable_def deprecated_flag_def a_to_b_def node_get_def get_prop_def
        object_prototype_get_def object_prototype_methods_def)

lemma report_checks_meta_demo:
  "report demo_externals (demo_metadata ''unfixable'') unfixable [fix_descriptor] [] =
     Inl (new_Error FIXABLE_MESSAGE) \<and>
   report demo_externals (demo_metadata ''deprecated-flag'') deprecated_flag [suggest_descriptor] [] =
     Inl (new_Error SUGGESTION_FLAG_MESSAGE) \<and>
   report demo_externals (demo_metadata ''a-to-b'') a_to_b [fix_descriptor] [] =
     Inr [reported ''a-to-b'' (JStr ''b'') JUndefined] \<and>
   isl (verifyWithConfigArray demo_externals demo_slots (Inl ''a'')
          (Some (config_with [(''unfixable'', JNum 2)])) (Some no_options)) \<and>
   map_sum exn_message (map p_fix)
     (verifyWithConfigArray demo_externals demo_slots (Inl ''a'')
        (Some (config_with [(''a-to-b'', JNum 2)])) (Some no_options)) = Inr [JStr ''b'']"
proof (intro conjI)
  show "report demo_externals (demo_metadata ''unfixable'') unfixable [fix_descriptor] [] =
        Inl (new_Error FIXABLE_MESSAGE)"
    using report_checks_meta [OF demo_report_fix, of "''unfixable''" unfixable "[]"] demo_meta(1)
    by (simp add: reported_def)
  show "report demo_externals (demo_metadata ''deprecated-flag'') deprecated_flag
          [suggest_descriptor] [] = Inl (new_Error SUGGESTION_FLAG_MESSAGE)"
    using report_checks_meta [OF demo_report_suggest, of "''deprecated-flag''" deprecated_flag "[]"]
      demo_meta(2,3)
    by (simp add: reported_def)
  show "report demo_externals (demo_metadata ''a-to-b'') a_to_b [fix_descriptor] [] =
        Inr [reported ''a-to-b'' (JStr ''b'') JUndefined]"
    using report_checks_meta [OF demo_report_fix, of "''a-to-b''" a_to_b "[]"] demo_meta(4)
    by (simp add: reported_def)
  show "isl (verifyWithConfigArray demo_externals demo_slots (Inl ''a'')
               (Some (config_with [(''unfixable'', JNum 2)])) (Some no_options))"
    by code_simp
  show "map_sum exn_message (map p_fix)
          (verifyWithConfigArray demo_externals demo_slots (Inl ''a'')
             (Some (config_with [(''a-to-b'', JNum 2)])) (Some no_options)) = Inr [JStr ''b'']"
    by code_simp
qed

section \<open>The Problems of a pass are only appended to\<close>

text \<open>
  The list of Problems is written by \<open>push\<close> and never read while the rules run: every
  step returns the list it was given, followed by what it added, and fails or succeeds
  regardless of that list.
\<close>

lemma report_frame:
  "report E M rule args ps = map_sum id ((@) ps) (report E M rule args [])"
  by (cases "E_createReportTranslator E M args") (simp_all add: report_def)

lemma run_reports_frame:
  "run_reports E M rule rs ps = map_sum id ((@) ps) (run_reports E M rule rs [])"
proof (induction rs arbitrary: ps)
  case Nil
  show ?case by simp
next
  case (Cons args rest)
  show ?case
  proof (cases "report E M rule args []")
    case (Inl e)
    then show ?thesis
      using report_frame [of E M rule args ps] by simp
  next
    case (Inr new)
    then have "report E M rule args ps = Inr (ps @ new)"
      using report_frame [of E M rule args ps] by simp
    then show ?thesis
      using Inr Cons.IH [of "ps @ new"] Cons.IH [of new]
      by (cases "run_reports E M rule rest []") simp_all
  qed
qed

lemma run_call_frame:
  "run_call E M rule c ps = map_sum id (\<lambda>(v, new). (v, ps @ new)) (run_call E M rule c [])"
  using run_reports_frame [of E M rule "reports c" ps]
  by (cases "run_reports E M rule (reports c) []") (simp_all add: run_call_def split: sum.splits)

lemma createRuleListeners_frame:
  "createRuleListeners E M rule ctx ps =
   map_sum id (\<lambda>(v, new). (v, ps @ new)) (createRuleListeners E M rule ctx [])"
  using run_call_frame [of E M rule "create rule ctx" ps]
  by (cases "run_call E M rule (create rule ctx) []")
     (simp_all add: createRuleListeners_def split: sum.splits)

definition empty_dispatcher :: dispatcher where
  "empty_dispatcher = \<lparr>d_lintingProblems = [], d_emitter = []\<rparr>"

definition extend :: "dispatcher \<Rightarrow> dispatcher \<Rightarrow> dispatcher" where
  "extend D D' =
     \<lparr>d_lintingProblems = d_lintingProblems D @ d_lintingProblems D',
      d_emitter = d_emitter D @ d_emitter D'\<rparr>"

lemma extend_empty [simp]: "extend D empty_dispatcher = D" "extend empty_dispatcher D = D"
  by (simp_all add: extend_def empty_dispatcher_def)

lemma extend_assoc: "extend (extend A B) C = extend A (extend B C)"
  by (simp add: extend_def)

lemma setup_rule_frame:
  "setup_rule E P ruleId D = map_sum id (extend D) (setup_rule E P ruleId empty_dispatcher)"
proof (cases "getRuleSeverity (get_prop (rp_configuredRules P) ruleId) = JNum 0")
  case True
  then show ?thesis by (simp add: setup_rule_def)
next
  case False
  show ?thesis
  proof (cases "rp_ruleMapper P ruleId")
    case None
    then show ?thesis
      using False by (simp add: setup_rule_def extend_def empty_dispatcher_def)
  next
    case (Some rule)
    show ?thesis
      using False Some
      by (simp add: setup_rule_def Let_def extend_def empty_dispatcher_def
            createRuleListeners_frame [where ps = "d_lintingProblems D"]
          split: sum.splits prod.splits)
  qed
qed

lemma setup_rules_frame:
  "setup_rules E P rs D = map_sum id (extend D) (setup_rules E P rs empty_dispatcher)"
proof (induction rs arbitrary: D)
  case Nil
  show ?case by simp
next
  case (Cons r rest)
  show ?case
  proof (cases "setup_rule E P r empty_dispatcher")
    case (Inl e)
    then show ?thesis
      using setup_rule_frame [of E P r D] by simp
  next
    case (Inr D1)
    then have "setup_rule E P r D = Inr (extend D D1)"
      using setup_rule_frame [of E P r D] by simp
    then show ?thesis
      using Inr Cons.IH [of "extend D D1"] Cons.IH [of D1]
      by (cases "setup_rules E P rest empty_dispatcher") (simp_all add: extend_assoc)
  qed
qed

lemma setup_rules_append:
  "setup_rules E P (xs @ ys) D =
   (case setup_rules E P xs D of Inl e \<Rightarrow> Inl e | Inr D' \<Rightarrow> setup_rules E P ys D')"
  by (induction xs arbitrary: D) (simp_all split: sum.splits)

lemma ruleErrorHandler_frame:
  "ruleErrorHandler E h info args ps = map_sum id ((@) ps) (ruleErrorHandler E h info args [])"
  using run_call_frame [of E "h_metadata h" "h_rule h" "h_listener h info args" ps]
  by (cases "run_call E (h_metadata h) (h_rule h) (h_listener h info args) []")
     (simp_all add: ruleErrorHandler_def split: sum.splits prod.splits)

lemma call_listeners_frame:
  "call_listeners E hs info args ps = map_sum id ((@) ps) (call_listeners E hs info args [])"
proof (induction hs arbitrary: ps)
  case Nil
  show ?case by simp
next
  case (Cons h rest)
  show ?case
  proof (cases "ruleErrorHandler E h info args []")
    case (Inl e)
    then show ?thesis
      using ruleErrorHandler_frame [of E h info args ps] by simp
  next
    case (Inr new)
    then have "ruleErrorHandler E h info args ps = Inr (ps @ new)"
      using ruleErrorHandler_frame [of E h info args ps] by simp
    then show ?thesis
      using Inr Cons.IH [of "ps @ new"] Cons.IH [of new]
      by (cases "call_listeners E rest info args []") simp_all
  qed
qed

lemma emit_frame:
  "emit E listeners info ev ps = map_sum id ((@) ps) (emit E listeners info ev [])"
  unfolding emit_def by (rule call_listeners_frame)

lemma emit_all_frame:
  "emit_all E listeners info evs ps = map_sum id ((@) ps) (emit_all E listeners info evs [])"
proof (induction evs arbitrary: ps)
  case Nil
  show ?case by simp
next
  case (Cons ev rest)
  show ?case
  proof (cases "emit E listeners info ev []")
    case (Inl e)
    then show ?thesis
      using emit_frame [of E listeners info ev ps] by simp
  next
    case (Inr new)
    then have "emit E listeners info ev ps = Inr (ps @ new)"
      using emit_frame [of E listeners info ev ps] by simp
    then show ?thesis
      using Inr Cons.IH [of "ps @ new"] Cons.IH [of new]
      by (cases "emit_all E listeners info rest []") simp_all
  qed
qed

lemma dispatch_node_frame:
  "dispatch_node E G listeners info (g, ps) =
   map_sum id (\<lambda>(g', new). (g', ps @ new)) (dispatch_node E G listeners info (g, []))"
proof -
  have "\<And>events. emit_all E listeners info events ps =
          map_sum id ((@) ps) (emit_all E listeners info events [])"
    by (rule emit_all_frame)
  then show ?thesis
    by (simp add: dispatch_node_def Let_def split: sum.splits prod.splits)
qed

lemma dispatch_queue_frame:
  "dispatch_queue E G listeners q (g, ps) =
   map_sum id (\<lambda>(g', new). (g', ps @ new)) (dispatch_queue E G listeners q (g, []))"
proof (induction q arbitrary: g ps)
  case Nil
  show ?case by simp
next
  case (Cons info rest)
  show ?case
  proof (cases "dispatch_node E G listeners info (g, [])")
    case (Inl e)
    then show ?thesis
      using dispatch_node_frame [of E G listeners info g ps] by simp
  next
    case (Inr s)
    obtain g1 new where s: "s = (g1, new)" by (cases s)
    have "dispatch_node E G listeners info (g, ps) = Inr (g1, ps @ new)"
      using Inr s dispatch_node_frame [of E G listeners info g ps] by simp
    then show ?thesis
      using Inr s Cons.IH [of g1 "ps @ new"] Cons.IH [of g1 new]
      by (cases "dispatch_queue E G listeners rest (g1, [])") (auto simp: case_prod_beta)
  qed
qed

section \<open>Properties of the dispatcher\<close>

text \<open>
  \<open>runRules\<close> in two phases: the rules are set up in the order of the configuration, then
  the queue of nodes is dispatched to the listeners they registered.
\<close>

definition run_queue :: "externals \<Rightarrow> source_code \<Rightarrow> dispatcher \<Rightarrow> exn + problem list" where
  "run_queue E sourceCode D =
     (case build_nodeQueue E sourceCode of
        [] \<Rightarrow> Inl (new_TypeError ''Cannot read properties of undefined (reading 'node')'')
      | first # rest \<Rightarrow>
          (let eventGenerator =
                 (if node_type (ti_node first) = ''Program'' then E_CodePathAnalyzer E
                  else E_NodeEventGenerator E)
           in case gen_new eventGenerator (map fst (d_emitter D)) of
                Inl e \<Rightarrow> Inl e
              | Inr g \<Rightarrow>
                  (case dispatch_queue E eventGenerator (d_emitter D) (first # rest)
                          (g, d_lintingProblems D) of
                     Inl e \<Rightarrow> Inl e
                   | Inr s \<Rightarrow> Inr (snd s))))"

lemma runRules_eq:
  "runRules E P =
     (case setup_rules E P (map fst (rp_configuredRules P)) empty_dispatcher of
        Inl e \<Rightarrow> Inl e
      | Inr D \<Rightarrow> run_queue E (rp_sourceCode P) D)"
  unfolding runRules_def run_queue_def empty_dispatcher_def Let_def
  by (intro sum.case_cong refl list.case_cong) (simp only:)

lemma run_queue_frame:
  "run_queue E sourceCode \<lparr>d_lintingProblems = ps, d_emitter = listeners\<rparr> =
   map_sum id ((@) ps) (run_queue E sourceCode \<lparr>d_lintingProblems = [], d_emitter = listeners\<rparr>)"
proof (cases "build_nodeQueue E sourceCode")
  case Nil
  then show ?thesis by (simp add: run_queue_def)
next
  case (Cons first rest)
  define G where "G = (if node_type (ti_node first) = ''Program'' then E_CodePathAnalyzer E
                       else E_NodeEventGenerator E)"
  have q: "run_queue E sourceCode \<lparr>d_lintingProblems = xs, d_emitter = listeners\<rparr> =
           (case gen_new G (map fst listeners) of
              Inl e \<Rightarrow> Inl e
            | Inr g \<Rightarrow> map_sum id snd (dispatch_queue E G listeners (first # rest) (g, xs)))" for xs
    unfolding run_queue_def Cons G_def Let_def list.case dispatcher.simps
    by (intro sum.case_cong refl) (simp split: sum.splits)
  show ?thesis
  proof (cases "gen_new G (map fst listeners)")
    case (Inl e)
    then show ?thesis by (simp add: q)
  next
    case (Inr g)
    show ?thesis
      unfolding q Inr sum.case dispatch_queue_frame [of E G listeners "first # rest" g ps]
      by (cases "dispatch_queue E G listeners (first # rest) (g, [])") (simp_all add: case_prod_beta)
  qed
qed

text \<open>
  Setting up a rule reads the configuration and the rule map at that rule's id only.
\<close>

lemma setup_rule_cong:
  assumes "P'\<lparr>rp_configuredRules := rp_configuredRules P, rp_ruleMapper := rp_ruleMapper P\<rparr> = P"
    and "get_prop (rp_configuredRules P') ruleId = get_prop (rp_configuredRules P) ruleId"
    and "rp_ruleMapper P' ruleId = rp_ruleMapper P ruleId"
  shows "setup_rule E P' ruleId D = setup_rule E P ruleId D"
proof -
  have eqs: "rp_sourceCode P' = rp_sourceCode P" "rp_parserName P' = rp_parserName P"
    "rp_languageOptions P' = rp_languageOptions P" "rp_settings P' = rp_settings P"
    "rp_filename P' = rp_filename P" "rp_disableFixes P' = rp_disableFixes P"
    "rp_physicalFilename P' = rp_physicalFilename P"
    using arg_cong [OF assms(1), of rp_sourceCode] arg_cong [OF assms(1), of rp_parserName]
      arg_cong [OF assms(1), of rp_languageOptions] arg_cong [OF assms(1), of rp_settings]
      arg_cong [OF assms(1), of rp_filename] arg_cong [OF assms(1), of rp_disableFixes]
      arg_cong [OF assms(1), of rp_physicalFilename]
    by simp_all
  show ?thesis
    unfolding setup_rule_def assms(2) assms(3) eqs by (rule refl)
qed

lemma setup_rules_cong:
  assumes "P'\<lparr>rp_configuredRules := rp_configuredRules P, rp_ruleMapper := rp_ruleMapper P\<rparr> = P"
    and "\<forall>r\<in>set rs. get_prop (rp_configuredRules P') r = get_prop (rp_configuredRules P) r \<and>
                      rp_ruleMapper P' r = rp_ruleMapper P r"
  shows "setup_rules E P' rs D = setup_rules E P rs D"
  using assms(2)
proof (induction rs arbitrary: D)
  case Nil
  show ?case by simp
next
  case (Cons r rest)
  have "setup_rule E P' r D = setup_rule E P r D"
    using Cons.prems by (intro setup_rule_cong [OF assms(1)]) simp_all
  then show ?case
    using Cons by (simp split: sum.splits)
qed

lemma get_prop_other:
  "r \<noteq> ruleId \<Longrightarrow> get_prop (rs1 @ (ruleId, c) # rs2) r = get_prop (rs1 @ rs2) r"
  by (simp add: get_prop_def map_add_def split: option.splits)

lemma get_prop_own:
  "ruleId \<notin> fst ` set rs1 \<Longrightarrow> get_prop (rs1 @ (ruleId, c) # rs2) ruleId = c"
proof -
  assume "ruleId \<notin> fst ` set rs1"
  then have "map_of rs1 ruleId = None" by (simp add: map_of_eq_None_iff)
  then show ?thesis by (simp add: get_prop_def map_add_def)
qed

text \<open>
  \<^bold>\<open>C6.\<close> Let a rule be configured with a value that resolves to severity 0. Then setting
  up that rule leaves the dispatcher as it was (no listener is registered, no Problem
  added), and the result of running the rules does not depend on the implementation
  registered for the rule, whatever its factory and listeners would report or throw, and
  is the result of running the rules without that rule in the configuration.
\<close>

theorem disabled_rule_not_loaded:
  assumes "rp_configuredRules P = rs1 @ (ruleId, ruleConfig) # rs2"
    and "distinct (map fst (rp_configuredRules P))"
    and "getRuleSeverity ruleConfig = JNum 0"
  shows "setup_rule E (P\<lparr>rp_ruleMapper := (rp_ruleMapper P)(ruleId := impl)\<rparr>) ruleId D = Inr D \<and>
         runRules E (P\<lparr>rp_ruleMapper := (rp_ruleMapper P)(ruleId := impl)\<rparr>) =
         runRules E (P\<lparr>rp_configuredRules := rs1 @ rs2\<rparr>)"
proof -
  define P1 where "P1 = P\<lparr>rp_ruleMapper := (rp_ruleMapper P)(ruleId := impl)\<rparr>"
  define P2 where "P2 = P\<lparr>rp_configuredRules := rs1 @ rs2\<rparr>"
  have c1: "rp_configuredRules P1 = rs1 @ (ruleId, ruleConfig) # rs2"
    by (simp add: P1_def assms(1))
  have c2: "rp_configuredRules P2 = rs1 @ rs2"
    by (simp add: P2_def)
  have notin: "ruleId \<notin> fst ` set rs1" "ruleId \<notin> fst ` set rs2"
    using assms(2) by (auto simp: assms(1))
  have own: "get_prop (rp_configuredRules P1) ruleId = ruleConfig"
    unfolding c1 using notin(1) by (rule get_prop_own)
  have skip: "setup_rule E P1 ruleId D' = Inr D'" for D'
    by (simp add: setup_rule_def own assms(3))
  have "setup_rules E P1 (map fst (rp_configuredRules P1)) empty_dispatcher =
        setup_rules E P1 (map fst rs1 @ [ruleId] @ map fst rs2) empty_dispatcher"
    by (simp add: c1)
  also have "\<dots> = setup_rules E P1 (map fst rs1 @ map fst rs2) empty_dispatcher"
    by (simp add: setup_rules_append [of E P1 "map fst rs1"] skip cong: sum.case_cong)
  also have "\<dots> = setup_rules E P2 (map fst rs1 @ map fst rs2) empty_dispatcher"
  proof (rule setup_rules_cong)
    show "P1\<lparr>rp_configuredRules := rp_configuredRules P2, rp_ruleMapper := rp_ruleMapper P2\<rparr> = P2"
      by (simp add: P1_def P2_def)
    show "\<forall>r\<in>set (map fst rs1 @ map fst rs2).
            get_prop (rp_configuredRules P1) r = get_prop (rp_configuredRules P2) r \<and>
            rp_ruleMapper P1 r = rp_ruleMapper P2 r"
    proof
      fix r assume "r \<in> set (map fst rs1 @ map fst rs2)"
      then have "r \<noteq> ruleId" using notin by auto
      then show "get_prop (rp_configuredRules P1) r = get_prop (rp_configuredRules P2) r \<and>
                 rp_ruleMapper P1 r = rp_ruleMapper P2 r"
        unfolding c1 c2 by (simp add: get_prop_other P1_def P2_def)
    qed
  qed
  finally have s: "setup_rules E P1 (map fst (rp_configuredRules P1)) empty_dispatcher =
                setup_rules E P2 (map fst (rp_configuredRules P2)) empty_dispatcher"
    by (simp add: c2)
  have sc: "rp_sourceCode P1 = rp_sourceCode P2"
    by (simp add: P1_def P2_def)
  have "runRules E P1 = runRules E P2"
    unfolding runRules_eq s sc by (rule refl)
  then show ?thesis
    using skip [of D] by (simp add: P1_def P2_def)
qed

text \<open>
  \<^bold>\<open>C7.\<close> Let a rule id be configured with a severity other than 0 and have no
  implementation. Then running the rules behaves as it does without that rule in the
  configuration, except for one more Problem: if the run without it fails, the run fails
  in the same way, and if the run without it returns Problems, the run returns the same
  Problems, in the same order, with exactly one Problem added among them, which has the
  rule's id, the message \<open>Definition for rule '<id>' was not found.\<close>, severity 2,
  line 1, column 1, end line 1, end column 2 and node type \<open>null\<close>.
\<close>

theorem missing_rule_reported:
  assumes "rp_configuredRules P = rs1 @ (ruleId, ruleConfig) # rs2"
    and "distinct (map fst (rp_configuredRules P))"
    and "getRuleSeverity ruleConfig \<noteq> JNum 0"
    and "rp_ruleMapper P ruleId = None"
  shows "case runRules E (P\<lparr>rp_configuredRules := rs1 @ rs2\<rparr>) of
           Inl e \<Rightarrow> runRules E P = Inl e
         | Inr problems \<Rightarrow>
             \<exists>before after.
               problems = before @ after \<and>
               runRules E P =
                 Inr (before @
                      [\<lparr>p_ruleId = Some ruleId,
                        p_fatal = False,
                        p_severity = JNum 2,
                        p_message = ''Definition for rule '' @ [CHR 0x27] @ ruleId @ [CHR 0x27] @
                                    '' was not found.'',
                        p_line = 1,
                        p_column = 1,
                        p_endLine = Some 1,
                        p_endColumn = Some 2,
                        p_nodeType = JNull,
                        p_fix = JUndefined,
                        p_suggestions = JUndefined\<rparr>] @
                      after)"
proof -
  define P2 where "P2 = P\<lparr>rp_configuredRules := rs1 @ rs2\<rparr>"
  define m where "m = createLintingProblem
    \<lparr>lp_ruleId = Some ruleId, lp_loc = None, lp_message = None, lp_severity = None\<rparr>"
  define M1 where "M1 = \<lparr>d_lintingProblems = [m], d_emitter = []\<rparr>"
  have m: "m = \<lparr>p_ruleId = Some ruleId, p_fatal = False, p_severity = JNum 2,
                 p_message = ''Definition for rule '' @ [CHR 0x27] @ ruleId @ [CHR 0x27] @
                             '' was not found.'',
                 p_line = 1, p_column = 1, p_endLine = Some 1, p_endColumn = Some 2,
                 p_nodeType = JNull, p_fix = JUndefined, p_suggestions = JUndefined\<rparr>"
    by (simp add: m_def createLintingProblem_def DEFAULT_ERROR_LOC_def quoted_def)
  have c2: "rp_configuredRules P2 = rs1 @ rs2"
    by (simp add: P2_def)
  have sc: "rp_sourceCode P2 = rp_sourceCode P"
    by (simp add: P2_def)
  have notin: "ruleId \<notin> fst ` set rs1" "ruleId \<notin> fst ` set rs2"
    using assms(2) by (auto simp: assms(1))
  have own: "get_prop (rp_configuredRules P) ruleId = ruleConfig"
    unfolding assms(1) using notin(1) by (rule get_prop_own)
  have missing: "setup_rule E P ruleId D = Inr (extend D M1)" for D
    by (simp add: setup_rule_def own assms(3,4) extend_def M1_def m_def)
  have same: "setup_rules E P2 (map fst rs) D = setup_rules E P (map fst rs) D"
    if "set rs \<subseteq> set rs1 \<union> set rs2" for rs D
  proof (rule setup_rules_cong)
    show "P2\<lparr>rp_configuredRules := rp_configuredRules P, rp_ruleMapper := rp_ruleMapper P\<rparr> = P"
      by (simp add: P2_def)
    show "\<forall>r\<in>set (map fst rs).
            get_prop (rp_configuredRules P2) r = get_prop (rp_configuredRules P) r \<and>
            rp_ruleMapper P2 r = rp_ruleMapper P r"
    proof
      fix r assume "r \<in> set (map fst rs)"
      then have "r \<noteq> ruleId" using notin that by auto
      then show "get_prop (rp_configuredRules P2) r = get_prop (rp_configuredRules P) r \<and>
                 rp_ruleMapper P2 r = rp_ruleMapper P r"
        unfolding c2 assms(1) by (simp add: get_prop_other P2_def)
    qed
  qed
  define A where "A = setup_rules E P (map fst rs1) empty_dispatcher"
  define B where "B = setup_rules E P (map fst rs2) empty_dispatcher"
  have s: "setup_rules E P (map fst (rp_configuredRules P)) empty_dispatcher =
           (case A of
              Inl e \<Rightarrow> Inl e
            | Inr D1 \<Rightarrow> map_sum id (extend (extend D1 M1)) B)"
  proof -
    have "setup_rules E P (map fst (rp_configuredRules P)) empty_dispatcher =
          setup_rules E P (map fst rs1 @ [ruleId] @ map fst rs2) empty_dispatcher"
      by (simp add: assms(1))
    also have "\<dots> = (case A of
                       Inl e \<Rightarrow> Inl e
                     | Inr D1 \<Rightarrow> setup_rules E P (map fst rs2) (extend D1 M1))"
      by (simp add: setup_rules_append [of E P "map fst rs1"] A_def missing cong: sum.case_cong)
    also have "\<dots> = (case A of
                       Inl e \<Rightarrow> Inl e
                     | Inr D1 \<Rightarrow> map_sum id (extend (extend D1 M1)) B)"
      unfolding B_def
      by (intro sum.case_cong refl) (rule setup_rules_frame)
    finally show ?thesis .
  qed
  have s2: "setup_rules E P2 (map fst (rp_configuredRules P2)) empty_dispatcher =
            (case A of
               Inl e \<Rightarrow> Inl e
             | Inr D1 \<Rightarrow> map_sum id (extend D1) B)"
  proof -
    have "setup_rules E P2 (map fst (rp_configuredRules P2)) empty_dispatcher =
          setup_rules E P (map fst (rs1 @ rs2)) empty_dispatcher"
      unfolding c2 by (rule same) simp
    also have "\<dots> = (case A of
                       Inl e \<Rightarrow> Inl e
                     | Inr D1 \<Rightarrow> setup_rules E P (map fst rs2) D1)"
      by (simp add: setup_rules_append [of E P "map fst rs1"] A_def)
    also have "\<dots> = (case A of
                       Inl e \<Rightarrow> Inl e
                     | Inr D1 \<Rightarrow> map_sum id (extend D1) B)"
      unfolding B_def
      by (intro sum.case_cong refl) (rule setup_rules_frame)
    finally show ?thesis .
  qed
  show ?thesis
  proof (cases A)
    case (Inl e)
    then show ?thesis
      by (simp add: runRules_eq s s2 P2_def [symmetric])
  next
    case A: (Inr D1)
    show ?thesis
    proof (cases B)
      case (Inl e)
      then show ?thesis
        using A by (simp add: runRules_eq s s2 P2_def [symmetric])
    next
      case B: (Inr D2)
      define Q where "Q = run_queue E (rp_sourceCode P)
        \<lparr>d_lintingProblems = [], d_emitter = d_emitter D1 @ d_emitter D2\<rparr>"
      have r: "runRules E P =
               map_sum id ((@) (d_lintingProblems D1 @ [m] @ d_lintingProblems D2)) Q"
        unfolding runRules_eq s A B Q_def
        by (simp add: extend_def M1_def
              run_queue_frame [of E _ "d_lintingProblems D1 @ m # d_lintingProblems D2"])
      have r2: "runRules E P2 =
                map_sum id ((@) (d_lintingProblems D1 @ d_lintingProblems D2)) Q"
        unfolding runRules_eq s2 A B Q_def sc
        by (simp add: extend_def
              run_queue_frame [of E _ "d_lintingProblems D1 @ d_lintingProblems D2"])
      show ?thesis
      proof (cases Q)
        case (Inl e)
        then show ?thesis
          by (simp add: r r2 P2_def [symmetric])
      next
        case (Inr new)
        have "d_lintingProblems D1 @ d_lintingProblems D2 @ new =
              d_lintingProblems D1 @ (d_lintingProblems D2 @ new) \<and>
              runRules E P = Inr (d_lintingProblems D1 @ [m] @ (d_lintingProblems D2 @ new))"
          by (simp add: r Inr)
        then have "\<exists>before after.
                     d_lintingProblems D1 @ d_lintingProblems D2 @ new = before @ after \<and>
                     runRules E P = Inr (before @ [m] @ after)"
          by blast
        then show ?thesis
          unfolding P2_def [symmetric] r2 Inr m by simp
      qed
    qed
  qed
qed

text \<open>
  A concrete run of the rules over the text \<open>a\<close>: \<open>a-to-b\<close> at severity 1, \<open>never\<close> switched
  off, and \<open>missing\<close>, which has no implementation, at severity 2.
\<close>

definition demo_parameters :: "(string \<times> jsval) list \<Rightarrow> run_parameters" where
  "demo_parameters rules =
     \<lparr>rp_sourceCode =
        \<lparr>sc_text = ''a'', sc_ast = program_node ''a'', sc_visitorKeys = None,
         sc_parserServices = JObj [], sc_scopeManager = JObj []\<rparr>,
      rp_configuredRules = rules,
      rp_ruleMapper = demo_rules,
      rp_parserName = Some ''espree'',
      rp_languageOptions = JObj [],
      rp_settings = JObj [],
      rp_filename = ''<input>'',
      rp_disableFixes = False,
      rp_physicalFilename = None\<rparr>"

definition demo_configuredRules :: "(string \<times> jsval) list" where
  "demo_configuredRules = [(''a-to-b'', JNum 1), (''never'', JStr ''off''), (''missing'', JNum 2)]"

definition missing_problem :: problem where
  "missing_problem =
     \<lparr>p_ruleId = Some ''missing'', p_fatal = False, p_severity = JNum 2,
      p_message = ''Definition for rule 'missing' was not found.'',
      p_line = 1, p_column = 1, p_endLine = Some 1, p_endColumn = Some 2,
      p_nodeType = JNull, p_fix = JUndefined, p_suggestions = JUndefined\<rparr>"

definition a_problem :: problem where
  "a_problem =
     \<lparr>p_ruleId = Some ''a-to-b'', p_fatal = False, p_severity = JNum 1,
      p_message = ''Unexpected a.'', p_line = 1, p_column = 1, p_endLine = None,
      p_endColumn = None, p_nodeType = JStr ''Identifier'', p_fix = JStr ''b'',
      p_suggestions = JUndefined\<rparr>"

lemma demo_configured:
  "rp_configuredRules (demo_parameters demo_configuredRules) =
   [(''a-to-b'', JNum 1)] @ (''never'', JStr ''off'') # [(''missing'', JNum 2)]"
  "rp_configuredRules (demo_parameters demo_configuredRules) =
   [(''a-to-b'', JNum 1), (''never'', JStr ''off'')] @ (''missing'', JNum 2) # []"
  "distinct (map fst (rp_configuredRules (demo_parameters demo_configuredRules)))"
  by (simp_all add: demo_parameters_def demo_configuredRules_def)

lemma demo_severities:
  "getRuleSeverity (JStr ''off'') = JNum 0" "getRuleSeverity (JNum 2) \<noteq> JNum 0"
  by code_simp+

lemma demo_missing: "rp_ruleMapper (demo_parameters demo_configuredRules) ''missing'' = None"
  by (simp add: demo_parameters_def demo_rules_def)

theorem disabled_rule_not_loaded_witness:
  "runRules demo_externals
     ((demo_parameters demo_configuredRules)
        \<lparr>rp_ruleMapper := (rp_ruleMapper (demo_parameters demo_configuredRules))
           (''never'' := Some never)\<rparr>) =
   runRules demo_externals
     ((demo_parameters demo_configuredRules)
        \<lparr>rp_configuredRules := [(''a-to-b'', JNum 1)] @ [(''missing'', JNum 2)]\<rparr>) \<and>
   runRules demo_externals (demo_parameters demo_configuredRules) =
     Inr [missing_problem, a_problem] \<and>
   isl (runRules demo_externals (demo_parameters [(''never'', JStr ''warn'')]))"
proof (intro conjI)
  show "runRules demo_externals
          ((demo_parameters demo_configuredRules)
             \<lparr>rp_ruleMapper := (rp_ruleMapper (demo_parameters demo_configuredRules))
                (''never'' := Some never)\<rparr>) =
        runRules demo_externals
          ((demo_parameters demo_configuredRules)
             \<lparr>rp_configuredRules := [(''a-to-b'', JNum 1)] @ [(''missing'', JNum 2)]\<rparr>)"
    using disabled_rule_not_loaded [OF demo_configured(1) demo_configured(3) demo_severities(1)]
    by (rule conjunct2)
  show "runRules demo_externals (demo_parameters demo_configuredRules) =
        Inr [missing_problem, a_problem]"
    by code_simp
  show "isl (runRules demo_externals (demo_parameters [(''never'', JStr ''warn'')]))"
    by code_simp
qed

theorem missing_rule_reported_witness:
  "(case runRules demo_externals
           ((demo_parameters demo_configuredRules)
              \<lparr>rp_configuredRules := [(''a-to-b'', JNum 1), (''never'', JStr ''off'')] @ []\<rparr>) of
      Inl e \<Rightarrow> runRules demo_externals (demo_parameters demo_configuredRules) = Inl e
    | Inr problems \<Rightarrow>
        \<exists>before after.
          problems = before @ after \<and>
          runRules demo_externals (demo_parameters demo_configuredRules) =
            Inr (before @
                 [\<lparr>p_ruleId = Some ''missing'',
                   p_fatal = False,
                   p_severity = JNum 2,
                   p_message = ''Definition for rule '' @ [CHR 0x27] @ ''missing'' @ [CHR 0x27] @
                               '' was not found.'',
                   p_line = 1,
                   p_column = 1,
                   p_endLine = Some 1,
                   p_endColumn = Some 2,
                   p_nodeType = JNull,
                   p_fix = JUndefined,
                   p_suggestions = JUndefined\<rparr>] @
                 after)) \<and>
   runRules demo_externals
     ((demo_parameters demo_configuredRules)
        \<lparr>rp_configuredRules := [(''a-to-b'', JNum 1), (''never'', JStr ''off'')] @ []\<rparr>) =
     Inr [a_problem] \<and>
   runRules demo_externals (demo_parameters demo_configuredRules) =
     Inr [missing_problem, a_problem]"
proof (intro conjI)
  show "case runRules demo_externals
               ((demo_parameters demo_configuredRules)
                  \<lparr>rp_configuredRules := [(''a-to-b'', JNum 1), (''never'', JStr ''off'')] @ []\<rparr>) of
          Inl e \<Rightarrow> runRules demo_externals (demo_parameters demo_configuredRules) = Inl e
        | Inr problems \<Rightarrow>
            \<exists>before after.
              problems = before @ after \<and>
              runRules demo_externals (demo_parameters demo_configuredRules) =
                Inr (before @
                     [\<lparr>p_ruleId = Some ''missing'',
                       p_fatal = False,
                       p_severity = JNum 2,
                       p_message = ''Definition for rule '' @ [CHR 0x27] @ ''missing'' @ [CHR 0x27] @
                                   '' was not found.'',
                       p_line = 1,
                       p_column = 1,
                       p_endLine = Some 1,
                       p_endColumn = Some 2,
                       p_nodeType = JNull,
                       p_fix = JUndefined,
                       p_suggestions = JUndefined\<rparr>] @
                     after)"
    by (rule missing_rule_reported
          [OF demo_configured(2) demo_configured(3) demo_severities(2) demo_missing])
  show "runRules demo_externals
          ((demo_parameters demo_configuredRules)
             \<lparr>rp_configuredRules := [(''a-to-b'', JNum 1), (''never'', JStr ''off'')] @ []\<rparr>) =
        Inr [a_problem]"
    by code_simp
  show "runRules demo_externals (demo_parameters demo_configuredRules) =
        Inr [missing_problem, a_problem]"
    by code_simp
qed


section \<open>Exceptions of a pass\<close>
















section \<open>The report calls of a pass\<close>

text \<open>
  The metadata and the context \<open>runRules\<close> builds for a rule, by name.
\<close>

definition rule_metadata :: "run_parameters \<Rightarrow> string \<Rightarrow> rule \<Rightarrow> translator_metadata" where
  "rule_metadata P ruleId rule =
     \<lparr>tm_ruleId = ruleId,
      tm_severity = getRuleSeverity (get_prop (rp_configuredRules P) ruleId),
      tm_sourceCode = rp_sourceCode P,
      tm_messageIds = node_get (meta rule) ''messages'',
      tm_disableFixes = rp_disableFixes P\<rparr>"

definition new_ruleContext :: "run_parameters \<Rightarrow> string \<Rightarrow> rule_context" where
  "new_ruleContext P ruleId =
     \<lparr>ctx_id = ruleId,
      ctx_options = getRuleOptions (get_prop (rp_configuredRules P) ruleId),
      ctx_filename = rp_filename P,
      ctx_physicalFilename =
        (case rp_physicalFilename P of
           Some f \<Rightarrow> if f \<noteq> [] then f else rp_filename P
         | None \<Rightarrow> rp_filename P),
      ctx_sourceCode = rp_sourceCode P,
      ctx_parserOptions = node_get (rp_languageOptions P) ''parserOptions'',
      ctx_parserPath = rp_parserName P,
      ctx_languageOptions = rp_languageOptions P,
      ctx_parserServices = sc_parserServices (rp_sourceCode P),
      ctx_settings = rp_settings P\<rparr>"






text \<open>
  The calls of rule code in a pass, each with the rule, the metadata its reports are
  translated with, and the \<open>report\<close> calls it makes. A pass calls the factory of every
  configured rule that is not off and has an implementation; and, when the rules are set
  up, it calls every listener such a factory has returned for an event the generator
  emits at a node of the queue, the nodes before it having been dispatched.
\<close>

inductive pass_call ::
  "externals \<Rightarrow> run_parameters \<Rightarrow> rule \<Rightarrow> translator_metadata \<Rightarrow> jsval list list \<Rightarrow> bool"
  for E :: externals and P :: run_parameters where
  factory:
    "ruleId \<in> set (map fst (rp_configuredRules P)) \<Longrightarrow>
     getRuleSeverity (get_prop (rp_configuredRules P) ruleId) \<noteq> JNum 0 \<Longrightarrow>
     rp_ruleMapper P ruleId = Some rule \<Longrightarrow>
     pass_call E P rule (rule_metadata P ruleId rule)
       (reports (create rule (new_ruleContext P ruleId)))"
| listener:
    "setup_rules E P (map fst (rp_configuredRules P)) empty_dispatcher = Inr D \<Longrightarrow>
     build_nodeQueue E (rp_sourceCode P) = before @ info # rest \<Longrightarrow>
     G = (if node_type (ti_node (hd (before @ [info]))) = ''Program''
          then E_CodePathAnalyzer E else E_NodeEventGenerator E) \<Longrightarrow>
     gen_new G (map fst (d_emitter D)) = Inr g0 \<Longrightarrow>
     dispatch_queue E G (d_emitter D) before (g0, d_lintingProblems D) = Inr (g, ps) \<Longrightarrow>
     (if isEntering info then gen_enterNode G (ti_node info) g
      else gen_leaveNode G (ti_node info) g) = Inr (events, g') \<Longrightarrow>
     (eventName, listenerArgs) \<in> set events \<Longrightarrow>
     ruleId \<in> set (map fst (rp_configuredRules P)) \<Longrightarrow>
     getRuleSeverity (get_prop (rp_configuredRules P) ruleId) \<noteq> JNum 0 \<Longrightarrow>
     rp_ruleMapper P ruleId = Some rule \<Longrightarrow>
     outcome (create rule (new_ruleContext P ruleId)) = Inr ruleListeners \<Longrightarrow>
     (eventName, ruleListener) \<in> set ruleListeners \<Longrightarrow>
     pass_call E P rule (rule_metadata P ruleId rule) (reports (ruleListener info listenerArgs))"








text \<open>
  When nothing throws, every \<open>report\<close> call has pushed its Problem, and the Problems
  stay: the Problems \<open>runRules\<close> returns contain the Problem of every \<open>report\<close> call of the
  pass.
\<close>

lemma frame_subset:
  assumes "\<And>ps. f ps = map_sum id ((@) ps) (f [])" and "f ps = Inr ps'"
  shows "set ps \<subseteq> set ps'"
proof -
  from assms(1) [of ps] assms(2) obtain new where "ps' = ps @ new"
    by (cases "f []") auto
  then show ?thesis by auto
qed











lemma call_listeners_subset:
  "call_listeners E hs info args ps = Inr ps' \<Longrightarrow> set ps \<subseteq> set ps'"
  by (rule frame_subset [where f = "call_listeners E hs info args"]) (rule call_listeners_frame)


lemma emit_subset:
  "emit E listeners info ev ps = Inr ps' \<Longrightarrow> set ps \<subseteq> set ps'"
  unfolding emit_def by (rule call_listeners_subset)



































text \<open>An exception of a verification is an exception of \<open>verifyAndFix\<close>.\<close>

lemma verifyAndFix_fails:
  assumes "isl (verifyWithConfigArray E S (Inl text_arg) config options)"
  shows "isl (verifyAndFix E S text_arg config options)"
proof -
  from assms obtain e where "verify_pass E S config options text_arg = Inl e"
    by (cases "verifyWithConfigArray E S (Inl text_arg) config options")
       (simp_all add: verify_pass_def)
  then have "fix_loop E S text_arg config options = Inl e"
    by (simp add: fix_loop_def
          do_while.simps [of "verify_pass E S config options" "patch_pass E options" False 0 text_arg])
  then show ?thesis
    by (simp add: verifyAndFix_eq)
qed


end
